theory Spec2Isabelle
  imports Complex_Main "HOL-Library.Sublist"
begin

section \<open>Secure training and evaluation on MNIST: the notebook's orchestration\<close>

text \<open>
  The notebook trains a small network on secret-shared MNIST batches. The tensor
  arithmetic, the sharing protocol and automatic differentiation belong to the
  libraries (torch, syft); what the notebook itself writes is the configuration, the
  construction of the two private data loaders, the functions \<open>train\<close> and \<open>test\<close> and
  the epoch loop. The embedding follows that code. Values are idealised as real
  numbers: a shared fixed-precision tensor is modelled by the numbers it represents and
  the arithmetic on it by real arithmetic; the rounding of the encoding is the
  library's, and a parameter where the notebook calls it. A 2-D tensor is a list of
  rows, one row per example.
\<close>

subsection \<open>Configuration\<close>

text \<open>The class \<open>Arguments\<close>, with the values its constructor assigns.\<close>

record Arguments =
  batch_size :: int
  test_batch_size :: int
  epochs :: int
  lr :: real
  seed :: int
  log_interval :: int
  precision_fractional :: int

definition args :: Arguments where
  "args = \<lparr>batch_size = 64, test_batch_size = 64, epochs = 10, lr = 2 / 100, seed = 1,
            log_interval = 1, precision_fractional = 3\<rparr>"

definition n_train_items :: int where "n_train_items = 640"

definition n_test_items :: int where "n_test_items = 640"

subsection \<open>Errors\<close>

text \<open>
  The exceptions the code can raise. None is caught anywhere in the notebook, so each
  one ends the run at the point where it is raised.
\<close>

datatype error = ZeroDivisionError | AttributeError | RuntimeError | ValueError

subsection \<open>Tensors\<close>

type_synonym tensor = "real list list"

text \<open>
  \<open>output - target\<close>: element-wise on tensors of one shape. Shapes that differ raise
  (torch would first try to broadcast a dimension of size one; the loaders never build
  such a pair, and the model treats every difference of shape as the error).
\<close>

definition tsub :: "tensor \<Rightarrow> tensor \<Rightarrow> error + tensor" where
  "tsub a b = (if map length a = map length b then Inr (map2 (map2 (-)) a b)
               else Inl RuntimeError)"

text \<open>\<open>t ** 2\<close> and \<open>t.sum()\<close>.\<close>

definition tsquare :: "tensor \<Rightarrow> tensor" where
  "tsquare a = map (map (\<lambda>x. x ^ 2)) a"

definition tsum :: "tensor \<Rightarrow> real" where
  "tsum a = sum_list (map sum_list a)"

text \<open>
  The loss of \<open>train\<close>:
  \<^verbatim>\<open>
  batch_size = output.shape[0]
  loss = ((output - target)**2).sum().refresh()/batch_size
  \<close>
  \<open>refresh\<close> re-shares the value and leaves it as it is. The division by the batch size
  of an empty batch is the error of a division by zero.
\<close>

definition mse_loss :: "tensor \<Rightarrow> tensor \<Rightarrow> error + real" where
  "mse_loss output target =
     (let batch_size = length output in
      case tsub output target of
        Inl e \<Rightarrow> Inl e
      | Inr d \<Rightarrow> if batch_size = 0 then Inl ZeroDivisionError
                 else Inr (tsum (tsquare d) / real batch_size))"

subsection \<open>The model, the optimizer and what an execution does\<close>

text \<open>
  \<open>train\<close> and \<open>test\<close> receive the model as an argument and call it on the data, so the
  network is a parameter of the embedding: \<open>forward\<close> is \<open>model(data)\<close> as a function of
  the parameters, and \<open>autograd\<close> is the gradient with respect to the parameters that
  \<open>loss.backward()\<close> computes for a batch. The parameters are a vector of a real vector
  space.
\<close>

record 'p network =
  forward :: "'p \<Rightarrow> tensor \<Rightarrow> tensor"
  autograd :: "'p \<Rightarrow> tensor \<Rightarrow> tensor \<Rightarrow> 'p"

text \<open>
  The mutable state: the parameters, their accumulated gradient \<open>.grad\<close> (\<open>None\<close> until
  the first backward pass), the module's training flag and the learning rate held by
  the optimizer.
\<close>

record 'p state =
  params :: 'p
  grad :: "'p option"
  training :: bool
  opt_lr :: real

text \<open>
  An execution is observed through the calls it makes: the entry into \<open>train\<close> (with
  its epoch) and into \<open>test\<close>, \<open>model.train()\<close>, \<open>model.eval()\<close>, the \<open>no_grad\<close> block,
  each batch the loop takes from the loader, and the library calls. \<open>Get\<close> is
  \<open>.get().float_precision()\<close>, the one operation that reveals a shared value; it
  records the place in the code that made the call and the value revealed, a scalar or
  a full tensor.
\<close>

datatype site = InTrain nat | InTest

datatype revealed = Scalar real | Full tensor

datatype event =
    EnterTrain int | EnterTest
  | SetTrain | SetEval | NoGradEnter | NoGradExit
  | NextBatch nat | ZeroGrad | Forward | Backward | OptStep
  | Get site revealed
  | PrintTrain int int int real
  | PrintTest real int

type_synonym 'p outcome = "error option \<times> 'p state \<times> event list"

text \<open>
  The optimizer is \<open>optim.SGD(model.parameters(), lr=args.lr)\<close>, without momentum or
  weight decay. \<open>zero_grad\<close> zeroes the gradients that exist, \<open>backward\<close> adds the new
  gradient to \<open>.grad\<close>, \<open>step\<close> subtracts the learning rate times \<open>.grad\<close>.
\<close>

definition zero_grad :: "'p::real_vector state \<Rightarrow> 'p state" where
  "zero_grad s = s\<lparr>grad := map_option (\<lambda>_. 0) (grad s)\<rparr>"

definition backward :: "'p::real_vector \<Rightarrow> 'p state \<Rightarrow> 'p state" where
  "backward g s = s\<lparr>grad := Some (case grad s of None \<Rightarrow> g | Some a \<Rightarrow> a + g)\<rparr>"

definition step :: "'p::real_vector state \<Rightarrow> 'p state" where
  "step s = (case grad s of None \<Rightarrow> s
             | Some g \<Rightarrow> s\<lparr>params := params s - opt_lr s *\<^sub>R g\<rparr>)"

subsection \<open>train\<close>

text \<open>
  One pass of the loop body of \<open>train\<close>, for the batch at position \<open>batch_idx\<close> of a
  loader of \<open>n\<close> batches:
  \<^verbatim>\<open>
  optimizer.zero_grad()
  output = model(data)
  batch_size = output.shape[0]
  loss = ((output - target)**2).sum().refresh()/batch_size
  loss.backward()
  optimizer.step()
  if batch_idx % args.log_interval == 0:
      loss = loss.get().float_precision()
      print(...)
  \<close>
  The modulus by a \<open>log_interval\<close> of zero raises after the optimizer step. The print
  is recorded with the epoch, the two products it shows and the loss; the percentage
  and the elapsed time are left out.
\<close>

definition train_batch ::
  "Arguments \<Rightarrow> 'p::real_vector network \<Rightarrow> int \<Rightarrow> nat \<Rightarrow> nat \<Rightarrow> tensor \<times> tensor \<Rightarrow>
   'p state \<Rightarrow> 'p outcome" where
  "train_batch a net epoch n batch_idx b s0 =
     (case b of (data, target) \<Rightarrow>
        (let s1 = zero_grad s0;
             output = forward net (params s1) data;
             evs1 = [NextBatch batch_idx, ZeroGrad, Forward]
         in (case mse_loss output target of
               Inl e \<Rightarrow> (Some e, s1, evs1)
             | Inr loss \<Rightarrow>
                 (let s2 = backward (autograd net (params s1) data target) s1;
                      s3 = step s2;
                      evs3 = evs1 @ [Backward, OptStep]
                  in (if log_interval a = 0 then (Some ZeroDivisionError, s3, evs3)
                      else if int batch_idx mod log_interval a = 0
                      then (None, s3, evs3 @
                              [Get (InTrain batch_idx) (Scalar loss),
                               PrintTrain epoch (int batch_idx * batch_size a)
                                 (int n * batch_size a) loss])
                      else (None, s3, evs3))))))"

text \<open>\<open>for batch_idx, (data, target) in enumerate(private_train_loader)\<close>.\<close>

fun train_loop ::
  "Arguments \<Rightarrow> 'p::real_vector network \<Rightarrow> int \<Rightarrow> nat \<Rightarrow> nat \<Rightarrow> (tensor \<times> tensor) list \<Rightarrow>
   'p state \<Rightarrow> 'p outcome" where
  "train_loop a net epoch n batch_idx [] s = (None, s, [])"
| "train_loop a net epoch n batch_idx (b # bs) s =
     (case train_batch a net epoch n batch_idx b s of
        (Some e, s1, evs1) \<Rightarrow> (Some e, s1, evs1)
      | (None, s1, evs1) \<Rightarrow>
          (case train_loop a net epoch n (Suc batch_idx) bs s1 of
             (r, s2, evs2) \<Rightarrow> (r, s2, evs1 @ evs2)))"

definition train ::
  "Arguments \<Rightarrow> 'p::real_vector network \<Rightarrow> (tensor \<times> tensor) list \<Rightarrow> int \<Rightarrow>
   'p state \<Rightarrow> 'p outcome" where
  "train a net private_train_loader epoch s =
     (case train_loop a net epoch (length private_train_loader) 0 private_train_loader
             (s\<lparr>training := True\<rparr>) of
        (r, s', evs) \<Rightarrow> (r, s', [EnterTrain epoch, SetTrain] @ evs))"

subsection \<open>test\<close>

text \<open>
  \<open>output.argmax(dim=1)\<close>: for each row the position of its first greatest entry; a row
  without entries raises.
\<close>

fun argmax_from :: "nat \<Rightarrow> real \<Rightarrow> nat \<Rightarrow> real list \<Rightarrow> nat" where
  "argmax_from best v i [] = best"
| "argmax_from best v i (x # xs) =
     (if v < x then argmax_from i x (Suc i) xs else argmax_from best v (Suc i) xs)"

definition argmax_row :: "real list \<Rightarrow> nat" where
  "argmax_row row = argmax_from 0 (hd row) 1 (tl row)"

definition argmax :: "tensor \<Rightarrow> error + nat list" where
  "argmax output =
     (if [] \<in> set output then Inl RuntimeError else Inr (map argmax_row output))"

text \<open>
  \<open>correct\<close> starts as the Python integer \<open>0\<close> and becomes a shared tensor with the
  first \<open>correct += ...\<close>.
\<close>

datatype counter = PyInt int | Shared real

fun counter_add :: "counter \<Rightarrow> real \<Rightarrow> counter" where
  "counter_add (PyInt k) x = Shared (of_int k + x)"
| "counter_add (Shared y) x = Shared (y + x)"

text \<open>\<open>pred.eq(target.view_as(pred)).sum()\<close>, for a target of as many entries as \<open>pred\<close>.\<close>

definition eq_sum :: "nat list \<Rightarrow> real list \<Rightarrow> real" where
  "eq_sum pred target = sum_list (map2 (\<lambda>p t. if real p = t then 1 else 0) pred target)"

text \<open>
  The loop of \<open>test\<close>, inside \<open>with torch.no_grad()\<close>:
  \<^verbatim>\<open>
  for data, target in private_test_loader:
      output = model(data)
      pred = output.argmax(dim=1)
      correct += pred.eq(target.view_as(pred)).sum()
  \<close>
  \<open>view_as\<close> raises when the target has not as many entries as \<open>pred\<close>.
\<close>

fun test_loop ::
  "'p network \<Rightarrow> 'p \<Rightarrow> (tensor \<times> real list) list \<Rightarrow> counter \<Rightarrow>
   error option \<times> counter \<times> event list" where
  "test_loop net p [] correct = (None, correct, [])"
| "test_loop net p ((data, target) # bs) correct =
     (let output = forward net p data in
      case argmax output of
        Inl e \<Rightarrow> (Some e, correct, [Forward])
      | Inr pred \<Rightarrow>
          if length target \<noteq> length pred then (Some RuntimeError, correct, [Forward])
          else (case test_loop net p bs (counter_add correct (eq_sum pred target)) of
                  (r, c, evs) \<Rightarrow> (r, c, Forward # evs)))"

text \<open>
  \<open>test\<close>: \<open>model.eval()\<close>, the loop, then
  \<^verbatim>\<open>
  correct = correct.get().float_precision()
  print(... correct.item(), len(private_test_loader) * args.test_batch_size,
        100. * correct.item() / (len(private_test_loader) * args.test_batch_size))
  \<close>
  \<open>get\<close> on the integer \<open>0\<close> of an empty loader raises, and so does the division by a
  number of items of zero. The \<open>with\<close> block is left on an exception too.
\<close>

definition test ::
  "Arguments \<Rightarrow> 'p network \<Rightarrow> (tensor \<times> real list) list \<Rightarrow> 'p state \<Rightarrow> 'p outcome" where
  "test a net private_test_loader s0 =
     (let s1 = s0\<lparr>training := False\<rparr> in
      case test_loop net (params s1) private_test_loader (PyInt 0) of
        (Some e, c, evs) \<Rightarrow> (Some e, s1, [EnterTest, SetEval, NoGradEnter] @ evs @ [NoGradExit])
      | (None, c, evs) \<Rightarrow>
          let evs1 = [EnterTest, SetEval, NoGradEnter] @ evs @ [NoGradExit] in
          (case c of
             PyInt k \<Rightarrow> (Some AttributeError, s1, evs1)
           | Shared x \<Rightarrow>
               let n_items = int (length private_test_loader) * test_batch_size a;
                   evs2 = evs1 @ [Get InTest (Scalar x)]
               in if n_items = 0 then (Some ZeroDivisionError, s1, evs2)
                  else (None, s1, evs2 @ [PrintTest x n_items])))"

subsection \<open>The epoch loop\<close>

text \<open>
  \<^verbatim>\<open>
  optimizer = optim.SGD(model.parameters(), lr=args.lr)
  for epoch in range(1, args.epochs + 1):
      train(args, model, private_train_loader, optimizer, epoch)
      test(args, model, private_test_loader)
  \<close>
\<close>

definition initial_state :: "Arguments \<Rightarrow> 'p \<Rightarrow> 'p state" where
  "initial_state a p = \<lparr>params = p, grad = None, training = True, opt_lr = lr a\<rparr>"

fun epoch_loop ::
  "Arguments \<Rightarrow> 'p::real_vector network \<Rightarrow> (tensor \<times> tensor) list \<Rightarrow>
   (tensor \<times> real list) list \<Rightarrow> int list \<Rightarrow> 'p state \<Rightarrow> 'p outcome" where
  "epoch_loop a net trl tel [] s = (None, s, [])"
| "epoch_loop a net trl tel (epoch # es) s =
     (case train a net trl epoch s of
        (Some e, s1, evs1) \<Rightarrow> (Some e, s1, evs1)
      | (None, s1, evs1) \<Rightarrow>
          (case test a net tel s1 of
             (Some e, s2, evs2) \<Rightarrow> (Some e, s2, evs1 @ evs2)
           | (None, s2, evs2) \<Rightarrow>
               (case epoch_loop a net trl tel es s2 of
                  (r, s3, evs3) \<Rightarrow> (r, s3, evs1 @ evs2 @ evs3))))"

definition run ::
  "Arguments \<Rightarrow> 'p::real_vector network \<Rightarrow> (tensor \<times> tensor) list \<Rightarrow>
   (tensor \<times> real list) list \<Rightarrow> 'p \<Rightarrow> 'p outcome" where
  "run a net private_train_loader private_test_loader p =
     epoch_loop a net private_train_loader private_test_loader [1..epochs a]
       (initial_state a p)"

subsection \<open>The private data loaders\<close>

text \<open>
  \<open>get_private_data_loaders\<close> reads the dataset through \<open>datasets.MNIST('../data',
  train=..., transform=transformation)\<close>. The files are a parameter: \<open>mnist True\<close> is the
  training split and \<open>mnist False\<close> the test split, each a list of images (bytes) with
  their labels. \<open>ToTensor\<close> scales a byte into the unit interval and
  \<open>Normalize((0.1307,), (0.3081,))\<close> shifts and scales it.
\<close>

definition transformation :: "nat list \<Rightarrow> real list" where
  "transformation img = map (\<lambda>v. (real v / 255 - 1307 / 10000) / (3081 / 10000)) img"

definition MNIST :: "(bool \<Rightarrow> (nat list \<times> nat) list) \<Rightarrow> bool \<Rightarrow> (real list \<times> nat) list" where
  "MNIST mnist train_flag = map (\<lambda>(img, label). (transformation img, label)) (mnist train_flag)"

text \<open>
  \<open>torch.utils.data.DataLoader(dataset, batch_size=...)\<close> with its defaults: no
  shuffling, the examples in the order of the dataset, the last batch shorter when the
  size does not divide the number of examples. A batch size that is not positive is
  refused.
\<close>

function batches_of :: "nat \<Rightarrow> 'a list \<Rightarrow> 'a list list" where
  "batches_of k xs = (if k = 0 \<or> xs = [] then [] else take k xs # batches_of k (drop k xs))"
  by pat_completeness auto
termination
  by (relation "measure (\<lambda>(k, xs). length xs)") auto

declare batches_of.simps [simp del]

definition DataLoader :: "('x \<times> 'y) list \<Rightarrow> int \<Rightarrow> error + ('x list \<times> 'y list) list" where
  "DataLoader dataset bs =
     (if bs \<le> 0 then Inl ValueError
      else Inr (map (\<lambda>examples. (map fst examples, map snd examples))
                  (batches_of (nat bs) dataset)))"

text \<open>
  \<open>one_hot_of\<close>: a row of ten zeros per label, with a one written at the position of the
  label; \<open>scatter\<close> raises on a position outside the row.
\<close>

definition one_hot_of :: "nat list \<Rightarrow> error + tensor" where
  "one_hot_of index_tensor =
     (if filter (\<lambda>label. 10 \<le> label) index_tensor \<noteq> [] then Inl RuntimeError
      else Inr (map (\<lambda>label. (replicate 10 0)[label := 1]) index_tensor))"

text \<open>
  \<open>secret_share\<close> is \<open>tensor.fix_precision(precision_fractional=...).share(...)\<close>. The
  library's encoding of one value at a precision is the parameter \<open>fix_precision\<close>; the
  sharing across the workers does not change the value represented.
\<close>

definition secret_share :: "(real \<Rightarrow> real) \<Rightarrow> tensor \<Rightarrow> tensor" where
  "secret_share fix t = map (map fix) t"

text \<open>
  The comprehension \<open>[... for i, (data, target) in enumerate(loader) if i < n / size]\<close>
  keeps the batches at the positions below the quotient, which Python computes as a
  fraction.
\<close>

definition first_batches :: "int \<Rightarrow> int \<Rightarrow> 'a list \<Rightarrow> 'a list" where
  "first_batches n_items bsize loader =
     map snd (filter (\<lambda>(i, b). real i < real_of_int n_items / real_of_int bsize)
                (enumerate 0 loader))"

fun share_train :: "(real \<Rightarrow> real) \<Rightarrow> (tensor \<times> nat list) list \<Rightarrow> error + (tensor \<times> tensor) list" where
  "share_train fix [] = Inr []"
| "share_train fix ((data, target) # bs) =
     (case one_hot_of target of
        Inl e \<Rightarrow> Inl e
      | Inr onehot \<Rightarrow>
          (case share_train fix bs of
             Inl e \<Rightarrow> Inl e
           | Inr rest \<Rightarrow> Inr ((secret_share fix data, secret_share fix onehot) # rest)))"

definition share_test :: "(real \<Rightarrow> real) \<Rightarrow> (tensor \<times> nat list) list \<Rightarrow> (tensor \<times> real list) list" where
  "share_test fix bs = map (\<lambda>(data, target). (secret_share fix data, map fix (map real target))) bs"

text \<open>
  \<^verbatim>\<open>
  train_loader = torch.utils.data.DataLoader(
      datasets.MNIST('../data', train=True, download=True, transform=transformation),
      batch_size=args.batch_size)
  private_train_loader = [
      (secret_share(data), secret_share(one_hot_of(target)))
      for i, (data, target) in enumerate(train_loader)
      if i < n_train_items / args.batch_size]
  test_loader = torch.utils.data.DataLoader(
      datasets.MNIST('../data', train=True, download=True, transform=transformation),
      batch_size=args.test_batch_size)
  private_test_loader = [
      (secret_share(data), secret_share(target.float()))
      for i, (data, target) in enumerate(test_loader)
      if i < n_test_items / args.test_batch_size]
  return private_train_loader, private_test_loader
  \<close>
  The function reads the globals \<open>args\<close>, \<open>n_train_items\<close> and \<open>n_test_items\<close>. Its
  arguments \<open>workers\<close> and \<open>crypto_provider\<close> say where the shares live and are left out.
\<close>

definition get_private_data_loaders ::
  "(int \<Rightarrow> real \<Rightarrow> real) \<Rightarrow> (bool \<Rightarrow> (nat list \<times> nat) list) \<Rightarrow> int \<Rightarrow>
   error + ((tensor \<times> tensor) list \<times> (tensor \<times> real list) list)" where
  "get_private_data_loaders fix_precision mnist precision =
     (case DataLoader (MNIST mnist True) (batch_size args) of
        Inl e \<Rightarrow> Inl e
      | Inr train_loader \<Rightarrow>
          (case share_train (fix_precision precision)
                  (first_batches n_train_items (batch_size args) train_loader) of
             Inl e \<Rightarrow> Inl e
           | Inr private_train_loader \<Rightarrow>
               (case DataLoader (MNIST mnist True) (test_batch_size args) of
                  Inl e \<Rightarrow> Inl e
                | Inr test_loader \<Rightarrow>
                    Inr (private_train_loader,
                         share_test (fix_precision precision)
                           (first_batches n_test_items (test_batch_size args) test_loader)))))"

text \<open>The examples a loader holds: the rows of the data of its batches.\<close>

definition examples_of :: "(tensor \<times> 'y) list \<Rightarrow> real list set" where
  "examples_of loader = set (concat (map fst loader))"

section \<open>Federated averaging\<close>

text \<open>
  The second notebook calls \<open>rwc.train\<close> and \<open>rwc.test\<close> of the module
  \<open>run_websocket_client\<close> and, through it, the library's averaging of models. Neither
  is among the sources, so the aggregator is written from its description: a model is
  an ordered list of named parameter tensors, and every worker holds a copy.
\<close>

type_synonym fmodel = "(string \<times> real list) list"

text \<open>
  Modelled from the spec: the averaging of the worker copies, done by \<open>rwc.train\<close>
  through the library and missing from the sources. It is "the element-wise mean of
  each corresponding parameter tensor across workers": entry \<open>j\<close> of the result is the
  sum of the entries \<open>j\<close> of the workers' tensors divided by the number of workers.
\<close>

definition tensor_mean :: "nat \<Rightarrow> real list list \<Rightarrow> real list" where
  "tensor_mean n ts = map (\<lambda>j. sum_list (map (\<lambda>t. t ! j) ts) / real (length ts)) [0..<n]"

text \<open>
  Modelled from the spec: when two copies are "corresponding", for the averaging that
  is missing from the sources: they name the same parameters in the same order, with
  tensors of the same lengths.
\<close>

definition same_shape :: "fmodel \<Rightarrow> fmodel \<Rightarrow> bool" where
  "same_shape m m' = (map fst m = map fst m' \<and> map (length \<circ> snd) m = map (length \<circ> snd) m')"

text \<open>
  Modelled from the spec: the averaged model, computed by the library function that
  \<open>rwc.train\<close> calls and missing from the sources: every parameter tensor of the result
  is the element-wise mean of the corresponding tensors of the copies. There is no
  mean of no copies, nor of copies of different shapes.
\<close>

definition federated_avg :: "fmodel list \<Rightarrow> fmodel option" where
  "federated_avg copies =
     (case copies of
        [] \<Rightarrow> None
      | m # ms \<Rightarrow>
          if list_all (same_shape m) ms
          then Some (map (\<lambda>k. (fst (m ! k),
                                tensor_mean (length (snd (m ! k))) (map (\<lambda>c. snd (c ! k)) copies)))
                       [0..<length m])
          else None)"






subsection \<open>The epoch loop of the federated notebook\<close>




section \<open>Notions used by the properties\<close>

text \<open>
  The loss as the specification words it: the mean, over the examples of the batch, of
  the squared difference between the output row and the target row.
\<close>

definition sq_diff :: "real list \<Rightarrow> real list \<Rightarrow> real" where
  "sq_diff out tgt = sum_list (map (\<lambda>j. (out ! j - tgt ! j) ^ 2) [0..<length out])"

definition mean_sq_diff :: "tensor \<Rightarrow> tensor \<Rightarrow> real" where
  "mean_sq_diff output target =
     sum_list (map (\<lambda>i. sq_diff (output ! i) (target ! i)) [0..<length output]) /
     real (length output)"

text \<open>One step of gradient descent on one batch, from the gradient of that batch alone.\<close>

definition sgd_update :: "'p::real_vector network \<Rightarrow> real \<Rightarrow> 'p \<Rightarrow> tensor \<times> tensor \<Rightarrow> 'p" where
  "sgd_update net rate p b =
     (case b of (data, target) \<Rightarrow> p - rate *\<^sub>R autograd net p data target)"

text \<open>The gradient of the last batch of a loader, at the parameters the earlier batches led to.\<close>

definition last_gradient ::
  "'p::real_vector network \<Rightarrow> real \<Rightarrow> 'p \<Rightarrow> (tensor \<times> tensor) list \<Rightarrow> 'p" where
  "last_gradient net rate p loader =
     autograd net (foldl (sgd_update net rate) p (butlast loader))
       (fst (last loader)) (snd (last loader))"

text \<open>The calls of one pass of the loop body of \<open>train\<close>, and what it reports.\<close>

definition body_events :: "nat \<Rightarrow> event list" where
  "body_events i = [NextBatch i, ZeroGrad, Forward, Backward, OptStep]"

definition log_events :: "Arguments \<Rightarrow> int \<Rightarrow> nat \<Rightarrow> nat \<Rightarrow> real \<Rightarrow> event list" where
  "log_events a epoch n i l =
     (if int i mod log_interval a = 0
      then [Get (InTrain i) (Scalar l),
            PrintTrain epoch (int i * batch_size a) (int n * batch_size a) l]
      else [])"

definition is_report :: "event \<Rightarrow> bool" where
  "is_report e =
     (case e of Get st v \<Rightarrow> True | PrintTrain ep i n l \<Rightarrow> True | PrintTest c n \<Rightarrow> True
      | _ \<Rightarrow> False)"


definition is_gradient_call :: "event \<Rightarrow> bool" where
  "is_gradient_call e = (e = ZeroGrad \<or> e = Backward \<or> e = OptStep)"

definition batches_taken :: "event list \<Rightarrow> nat list" where
  "batches_taken evs = concat (map (\<lambda>e. case e of NextBatch i \<Rightarrow> [i] | _ \<Rightarrow> []) evs)"

definition count_event :: "event \<Rightarrow> event list \<Rightarrow> nat" where
  "count_event e evs = length (filter (\<lambda>x. x = e) evs)"


text \<open>
  A reveal is admitted when its value is a scalar and it is made by \<open>test\<close>, or by
  \<open>train\<close> at a batch whose position the logging interval divides.
\<close>

definition good_reveal :: "Arguments \<Rightarrow> nat \<Rightarrow> event \<Rightarrow> bool" where
  "good_reveal a n e =
     (case e of
        Get st v \<Rightarrow>
          (case v of Scalar x \<Rightarrow> True | Full t \<Rightarrow> False) \<and>
          (case st of InTrain i \<Rightarrow> i < n \<and> int i mod log_interval a = 0 | InTest \<Rightarrow> True)
      | _ \<Rightarrow> True)"

text \<open>
  Loaders on which no tensor operation raises: whatever the parameters, the output
  has a row per example and the shape of the target.
\<close>

definition well_shaped :: "'p network \<Rightarrow> (tensor \<times> tensor) list \<Rightarrow> bool" where
  "well_shaped net loader =
     (\<forall>(data, target) \<in> set loader. \<forall>p.
        forward net p data \<noteq> [] \<and> map length (forward net p data) = map length target)"

definition well_shaped_test :: "'p network \<Rightarrow> (tensor \<times> real list) list \<Rightarrow> bool" where
  "well_shaped_test net loader =
     (\<forall>(data, target) \<in> set loader. \<forall>p.
        [] \<notin> set (forward net p data) \<and> length target = length (forward net p data))"

text \<open>The number of examples of the test set whose greatest output is at their label.\<close>

definition counter_value :: "counter \<Rightarrow> real" where
  "counter_value c = (case c of PyInt k \<Rightarrow> of_int k | Shared x \<Rightarrow> x)"

definition n_correct :: "tensor \<Rightarrow> real list \<Rightarrow> nat" where
  "n_correct output target =
     length (filter (\<lambda>(row, t). real (argmax_row row) = t) (zip output target))"

definition correct_count :: "'p network \<Rightarrow> 'p \<Rightarrow> (tensor \<times> real list) list \<Rightarrow> real" where
  "correct_count net p loader =
     real (sum_list (map (\<lambda>(data, target). n_correct (forward net p data) target) loader))"

definition test_reports :: "real \<Rightarrow> int \<Rightarrow> event list set" where
  "test_reports c n_items =
     {[], [Get InTest (Scalar c)], [Get InTest (Scalar c), PrintTest c n_items]}"

subsection \<open>What the loops are to do, position by position\<close>

text \<open>
  The calls of \<open>train\<close> when the loop body runs once on every batch, in the order of the
  loader, each time at the parameters the batches before it led to: for the batch at
  position \<open>i\<close> the calls of the body, the report of the loss of that batch where the
  interval asks for it, then the rest from the parameters after the step on that batch.
\<close>

fun train_trace ::
  "Arguments \<Rightarrow> 'p::real_vector network \<Rightarrow> real \<Rightarrow> int \<Rightarrow> nat \<Rightarrow> nat \<Rightarrow> 'p \<Rightarrow>
   (tensor \<times> tensor) list \<Rightarrow> event list" where
  "train_trace a net rate epoch n i p [] = []"
| "train_trace a net rate epoch n i p (b # bs) =
     body_events i @
     log_events a epoch n i (mean_sq_diff (forward net p (fst b)) (snd b)) @
     train_trace a net rate epoch n (Suc i) (sgd_update net rate p b) bs"

text \<open>The calls of \<open>test\<close> at given parameters: one forward pass per test batch, one reveal.\<close>

definition test_trace ::
  "Arguments \<Rightarrow> 'p network \<Rightarrow> 'p \<Rightarrow> (tensor \<times> real list) list \<Rightarrow> event list" where
  "test_trace a net p tel =
     [EnterTest, SetEval, NoGradEnter] @ replicate (length tel) Forward @
     [NoGradExit, Get InTest (Scalar (correct_count net p tel)),
      PrintTest (correct_count net p tel) (int (length tel) * test_batch_size a)]"

text \<open>
  The calls of the run: for each epoch in turn, \<open>train\<close> over the whole training loader
  from the parameters the epochs before it led to, then \<open>test\<close> at the parameters that
  this training led to. \<open>run_params\<close> is where the parameters end.
\<close>

fun run_trace ::
  "Arguments \<Rightarrow> 'p::real_vector network \<Rightarrow> real \<Rightarrow> (tensor \<times> tensor) list \<Rightarrow>
   (tensor \<times> real list) list \<Rightarrow> int list \<Rightarrow> 'p \<Rightarrow> event list" where
  "run_trace a net rate trl tel [] p = []"
| "run_trace a net rate trl tel (epoch # es) p =
     [EnterTrain epoch, SetTrain] @ train_trace a net rate epoch (length trl) 0 p trl @
     test_trace a net (foldl (sgd_update net rate) p trl) tel @
     run_trace a net rate trl tel es (foldl (sgd_update net rate) p trl)"

fun run_params ::
  "'p::real_vector network \<Rightarrow> real \<Rightarrow> (tensor \<times> tensor) list \<Rightarrow> int list \<Rightarrow> 'p \<Rightarrow> 'p" where
  "run_params net rate trl [] p = p"
| "run_params net rate trl (epoch # es) p =
     run_params net rate trl es (foldl (sgd_update net rate) p trl)"

text \<open>
  The values a run is allowed to reveal, in order: in each epoch the loss of every
  training batch whose position the logging interval divides, taken at the parameters
  the batches before it led to, then once the number of correct predictions on the
  whole test set at the parameters after this epoch's training.
\<close>

definition is_reveal :: "event \<Rightarrow> bool" where
  "is_reveal e = (case e of Get st v \<Rightarrow> True | _ \<Rightarrow> False)"

fun train_reveals ::
  "Arguments \<Rightarrow> 'p::real_vector network \<Rightarrow> real \<Rightarrow> nat \<Rightarrow> 'p \<Rightarrow> (tensor \<times> tensor) list \<Rightarrow>
   event list" where
  "train_reveals a net rate i p [] = []"
| "train_reveals a net rate i p (b # bs) =
     (if int i mod log_interval a = 0
      then [Get (InTrain i) (Scalar (mean_sq_diff (forward net p (fst b)) (snd b)))]
      else []) @
     train_reveals a net rate (Suc i) (sgd_update net rate p b) bs"

fun run_reveals ::
  "Arguments \<Rightarrow> 'p::real_vector network \<Rightarrow> real \<Rightarrow> (tensor \<times> tensor) list \<Rightarrow>
   (tensor \<times> real list) list \<Rightarrow> int list \<Rightarrow> 'p \<Rightarrow> event list" where
  "run_reveals a net rate trl tel [] p = []"
| "run_reveals a net rate trl tel (epoch # es) p =
     train_reveals a net rate 0 p trl @
     [Get InTest (Scalar (correct_count net (foldl (sgd_update net rate) p trl) tel))] @
     run_reveals a net rate trl tel es (foldl (sgd_update net rate) p trl)"






subsection \<open>A small instance\<close>

text \<open>
  A network of one weight that scales its input, with the gradient of the loss above,
  two training batches with one-hot targets, one test batch, a dataset of one
  training and one test example, a model of two parameter tensors with a local
  training that shifts every entry by the sum of the batches, and for the federated
  loop a training that adds the epoch to an integer model and a test that returns.
\<close>

definition scale_net :: "real network" where
  "scale_net =
     \<lparr>forward = (\<lambda>w data. map (map (\<lambda>x. w * x)) data),
      autograd = (\<lambda>w data target.
         2 * tsum (map2 (map2 (\<lambda>x t. (w * x - t) * x)) data target) / real (length data))\<rparr>"

definition sample_train :: "(tensor \<times> tensor) list" where
  "sample_train = [([[1, 2]], [[1, 0]]), ([[0, 1], [1, 1]], [[0, 1], [1, 0]])]"

definition sample_test :: "(tensor \<times> real list) list" where
  "sample_test = [([[1, 2], [3, 1]], [1, 0])]"

definition sample_state :: "real state" where
  "sample_state = \<lparr>params = 1, grad = Some 5, training = False, opt_lr = 1 / 2\<rparr>"

definition mnist_sample :: "bool \<Rightarrow> (nat list \<times> nat) list" where
  "mnist_sample train_flag = (if train_flag then [([0, 255], 3)] else [([51, 102], 7)])"

definition sample_model :: fmodel where
  "sample_model = [(''fc1.weight'', [1, 2]), (''fc1.bias'', [0])]"




section \<open>Properties of the embedding\<close>

subsection \<open>The optimizer and the loop body of train\<close>

lemma sgd_update_pair:
  "sgd_update net rate p (data, target) = p - rate *\<^sub>R autograd net p data target"
  by (simp add: sgd_update_def)

lemma grad_backward_zero_grad:
  "backward g (zero_grad s) = s\<lparr>grad := Some g\<rparr>"
  by (cases "grad s") (simp_all add: backward_def zero_grad_def)

lemma step_after_backward:
  "step (backward g (zero_grad s)) = s\<lparr>grad := Some g, params := params s - opt_lr s *\<^sub>R g\<rparr>"
  by (simp add: grad_backward_zero_grad step_def)

lemma params_zero_grad [simp]: "params (zero_grad s) = params s"
  by (simp add: zero_grad_def)

lemma train_batch_error:
  assumes "mse_loss (forward net (params s) data) target = Inl e"
  shows "train_batch a net epoch n i (data, target) s =
           (Some e, zero_grad s, [NextBatch i, ZeroGrad, Forward])"
  using assms by (simp add: train_batch_def)

lemma train_batch_zero_interval:
  assumes "mse_loss (forward net (params s) data) target = Inr l" and "log_interval a = 0"
  shows "train_batch a net epoch n i (data, target) s =
           (Some ZeroDivisionError,
            s\<lparr>grad := Some (autograd net (params s) data target),
              params := params s - opt_lr s *\<^sub>R autograd net (params s) data target\<rparr>,
            body_events i)"
  using assms by (simp add: train_batch_def Let_def step_after_backward body_events_def)

lemma train_batch_ok:
  assumes "mse_loss (forward net (params s) data) target = Inr l" and "log_interval a \<noteq> 0"
  shows "train_batch a net epoch n i (data, target) s =
           (None,
            s\<lparr>grad := Some (autograd net (params s) data target),
              params := params s - opt_lr s *\<^sub>R autograd net (params s) data target\<rparr>,
            body_events i @ log_events a epoch n i l)"
  using assms by (simp add: train_batch_def Let_def step_after_backward body_events_def log_events_def)

lemma train_batch_None:
  assumes "train_batch a net epoch n i (data, target) s = (None, s', evs)"
  shows "\<exists>l. mse_loss (forward net (params s) data) target = Inr l \<and> log_interval a \<noteq> 0 \<and>
             s' = s\<lparr>grad := Some (autograd net (params s) data target),
                    params := params s - opt_lr s *\<^sub>R autograd net (params s) data target\<rparr> \<and>
             evs = body_events i @ log_events a epoch n i l"
proof (cases "mse_loss (forward net (params s) data) target")
  case (Inl e)
  with assms show ?thesis by (simp add: train_batch_error)
next
  case (Inr l)
  show ?thesis
  proof (cases "log_interval a = 0")
    case True
    with Inr assms show ?thesis by (simp add: train_batch_zero_interval)
  next
    case False
    with Inr assms show ?thesis by (simp add: train_batch_ok)
  qed
qed

lemma mse_loss_Inr:
  assumes "output \<noteq> []" and "map length output = map length target"
  shows "mse_loss output target =
           Inr (tsum (tsquare (map2 (map2 (-)) output target)) / real (length output))"
  using assms by (simp add: mse_loss_def tsub_def)

lemma row_sq_diff:
  assumes "length out = length tgt"
  shows "sum_list (map (\<lambda>x. x ^ 2) (map2 (-) out tgt)) = sq_diff out tgt"
proof -
  have "map (\<lambda>x. x ^ 2) (map2 (-) out tgt) = map (\<lambda>j. (out ! j - tgt ! j) ^ 2) [0..<length out]"
    using assms by (intro nth_equalityI) simp_all
  then show ?thesis by (simp add: sq_diff_def)
qed

lemma tsum_sq_diff:
  assumes "map length output = map length target"
  shows "tsum (tsquare (map2 (map2 (-)) output target)) =
           sum_list (map (\<lambda>i. sq_diff (output ! i) (target ! i)) [0..<length output])"
proof -
  from assms have len: "length output = length target"
    by (metis length_map)
  have rows: "length (output ! i) = length (target ! i)" if "i < length output" for i
    using assms that len by (metis nth_map)
  have row: "sum_list (tsquare (map2 (map2 (-)) output target) ! i) =
               sq_diff (output ! i) (target ! i)" if "i < length output" for i
  proof -
    have "tsquare (map2 (map2 (-)) output target) ! i =
            map (\<lambda>x. x ^ 2) (map2 (-) (output ! i) (target ! i))"
      using that len by (simp add: tsquare_def)
    then show ?thesis by (simp only: row_sq_diff [OF rows [OF that]])
  qed
  have "map sum_list (tsquare (map2 (map2 (-)) output target)) =
          map (\<lambda>i. sq_diff (output ! i) (target ! i)) [0..<length output]"
  proof (intro nth_equalityI)
    show "length (map sum_list (tsquare (map2 (map2 (-)) output target))) =
            length (map (\<lambda>i. sq_diff (output ! i) (target ! i)) [0..<length output])"
      using len by (simp add: tsquare_def)
  next
    fix i
    assume "i < length (map sum_list (tsquare (map2 (map2 (-)) output target)))"
    then have i: "i < length output" using len by (simp add: tsquare_def)
    then have "i < length (tsquare (map2 (map2 (-)) output target))"
      using len by (simp add: tsquare_def)
    then have "map sum_list (tsquare (map2 (map2 (-)) output target)) ! i =
                 sum_list (tsquare (map2 (map2 (-)) output target) ! i)"
      by (rule nth_map)
    with row [OF i] i
    show "map sum_list (tsquare (map2 (map2 (-)) output target)) ! i =
            map (\<lambda>i. sq_diff (output ! i) (target ! i)) [0..<length output] ! i"
      by simp
  qed
  then show ?thesis by (simp add: tsum_def)
qed

lemma mse_loss_mean:
  assumes "output \<noteq> []" and "map length output = map length target"
  shows "mse_loss output target = Inr (mean_sq_diff output target)"
  using assms by (simp add: mse_loss_Inr tsum_sq_diff mean_sq_diff_def)

lemma mse_loss_Inr_mean:
  assumes "mse_loss output target = Inr l"
  shows "l = mean_sq_diff output target"
proof -
  from assms have "map length output = map length target" and "output \<noteq> []"
    by (auto simp: mse_loss_def tsub_def Let_def split: if_splits)
  from mse_loss_mean [OF this(2,1)] assms show ?thesis by simp
qed

lemma train_batch_reveals:
  assumes "train_batch a net epoch n i b s = (r, s', evs)" and "e \<in> set evs" and "i < n"
  shows "good_reveal a n e"
proof -
  obtain data target where b: "b = (data, target)" by (cases b)
  show ?thesis
  proof (cases "mse_loss (forward net (params s) data) target")
    case (Inl err)
    with assms b show ?thesis by (auto simp: train_batch_error good_reveal_def)
  next
    case (Inr l)
    show ?thesis
    proof (cases "log_interval a = 0")
      case True
      with Inr assms b show ?thesis
        by (auto simp: train_batch_zero_interval good_reveal_def body_events_def)
    next
      case False
      with Inr assms b show ?thesis
        by (auto simp: train_batch_ok good_reveal_def body_events_def log_events_def
                 split: if_splits)
    qed
  qed
qed

lemma train_batch_None_trace:
  assumes "train_batch a net epoch n i (data, target) s = (None, s', evs)"
  shows "evs = body_events i @
               log_events a epoch n i (mean_sq_diff (forward net (params s) data) target)"
    and "s' = s\<lparr>grad := Some (autograd net (params s) data target),
                 params := sgd_update net (opt_lr s) (params s) (data, target)\<rparr>"
proof -
  from train_batch_None [OF assms] obtain l where
    l: "mse_loss (forward net (params s) data) target = Inr l" and
    s': "s' = s\<lparr>grad := Some (autograd net (params s) data target),
                  params := params s - opt_lr s *\<^sub>R autograd net (params s) data target\<rparr>" and
    evs: "evs = body_events i @ log_events a epoch n i l"
    by blast
  from mse_loss_Inr_mean [OF l] evs
  show "evs = body_events i @
               log_events a epoch n i (mean_sq_diff (forward net (params s) data) target)"
    by simp
  from s' show "s' = s\<lparr>grad := Some (autograd net (params s) data target),
                 params := sgd_update net (opt_lr s) (params s) (data, target)\<rparr>"
    by (simp add: sgd_update_pair)
qed

subsection \<open>The loop of train\<close>

lemma train_loop_None:
  "train_loop a net epoch n i bs s = (None, s', evs) \<Longrightarrow>
     params s' = foldl (sgd_update net (opt_lr s)) (params s) bs \<and>
     opt_lr s' = opt_lr s \<and> training s' = training s \<and>
     filter (\<lambda>e. \<not> is_report e) evs = concat (map body_events [i..<i + length bs])"
proof (induction bs arbitrary: i s s' evs)
  case Nil
  then show ?case by simp
next
  case (Cons b bs)
  obtain data target where b: "b = (data, target)" by (cases b)
  from Cons.prems obtain s1 evs1 evs2 where
    hd: "train_batch a net epoch n i (data, target) s = (None, s1, evs1)" and
    tl: "train_loop a net epoch n (Suc i) bs s1 = (None, s', evs2)" and
    evs: "evs = evs1 @ evs2"
    by (auto simp: b split: prod.splits option.splits)
  from train_batch_None [OF hd] obtain l where
    s1: "s1 = s\<lparr>grad := Some (autograd net (params s) data target),
                 params := params s - opt_lr s *\<^sub>R autograd net (params s) data target\<rparr>" and
    evs1: "evs1 = body_events i @ log_events a epoch n i l"
    by blast
  have f1: "filter (\<lambda>e. \<not> is_report e) evs1 = body_events i"
    by (simp add: evs1 body_events_def log_events_def is_report_def)
  have upt: "[i..<i + length (b # bs)] = i # [Suc i..<Suc i + length bs]"
    by (simp add: upt_conv_Cons del: upt_Suc)
  note ih = Cons.IH [OF tl]
  have "params s' = foldl (sgd_update net (opt_lr s)) (params s) (b # bs)"
    using ih [THEN conjunct1] by (simp add: s1 b sgd_update_pair)
  moreover have "opt_lr s' = opt_lr s" and "training s' = training s"
    using ih [THEN conjunct2] by (simp_all add: s1)
  moreover have "filter (\<lambda>e. \<not> is_report e) evs = concat (map body_events [i..<i + length (b # bs)])"
    unfolding upt evs using ih [THEN conjunct2, THEN conjunct2, THEN conjunct2] f1
    by (simp del: upt_Suc)
  ultimately show ?case by blast
qed

lemma train_loop_grad:
  "train_loop a net epoch n i bs s = (None, s', evs) \<Longrightarrow> bs \<noteq> [] \<Longrightarrow>
     grad s' = Some (last_gradient net (opt_lr s) (params s) bs)"
proof (induction bs arbitrary: i s s' evs)
  case Nil
  then show ?case by simp
next
  case (Cons b bs)
  obtain data target where b: "b = (data, target)" by (cases b)
  from Cons.prems obtain s1 evs1 evs2 where
    hd: "train_batch a net epoch n i (data, target) s = (None, s1, evs1)" and
    tl: "train_loop a net epoch n (Suc i) bs s1 = (None, s', evs2)"
    by (auto simp: b split: prod.splits option.splits)
  from train_batch_None [OF hd] have
    s1: "s1 = s\<lparr>grad := Some (autograd net (params s) data target),
                 params := params s - opt_lr s *\<^sub>R autograd net (params s) data target\<rparr>"
    by blast
  show ?case
  proof (cases "bs = []")
    case True
    with tl have "s' = s1" by simp
    then show ?thesis by (simp add: s1 True last_gradient_def b)
  next
    case False
    from Cons.IH [OF tl False] show ?thesis
      by (simp add: last_gradient_def False s1 b sgd_update_pair)
  qed
qed

lemma train_loop_total:
  "log_interval a \<noteq> 0 \<Longrightarrow> well_shaped net bs \<Longrightarrow>
     \<exists>s' evs. train_loop a net epoch n i bs s = (None, s', evs)"
proof (induction bs arbitrary: i s)
  case Nil
  then show ?case by simp
next
  case (Cons b bs)
  obtain data target where b: "b = (data, target)" by (cases b)
  from Cons.prems(2) have shp: "forward net (params s) data \<noteq> []"
      "map length (forward net (params s) data) = map length target"
    and rest: "well_shaped net bs"
    by (auto simp: well_shaped_def b)
  from train_batch_ok [OF mse_loss_Inr [OF shp] Cons.prems(1)]
  obtain s1 evs1 where hd: "train_batch a net epoch n i (data, target) s = (None, s1, evs1)"
    by blast
  from Cons.IH [OF Cons.prems(1) rest] obtain s2 evs2 where
    "train_loop a net epoch n (Suc i) bs s1 = (None, s2, evs2)" by blast
  with hd show ?case by (simp add: b)
qed

lemma train_loop_reveals:
  "train_loop a net epoch n i bs s = (r, s', evs) \<Longrightarrow> i + length bs \<le> n \<Longrightarrow>
     e \<in> set evs \<Longrightarrow> good_reveal a n e"
proof (induction bs arbitrary: i s r s' evs)
  case Nil
  then show ?case by simp
next
  case (Cons b bs)
  obtain r1 s1 evs1 where hd: "train_batch a net epoch n i b s = (r1, s1, evs1)"
    by (cases "train_batch a net epoch n i b s") auto
  have i: "i < n" using Cons.prems(2) by simp
  show ?case
  proof (cases r1)
    case (Some err)
    with hd Cons.prems have "evs = evs1" by simp
    with Cons.prems(3) train_batch_reveals [OF hd _ i] show ?thesis by blast
  next
    case None
    obtain r2 s2 evs2 where tl: "train_loop a net epoch n (Suc i) bs s1 = (r2, s2, evs2)"
      by (cases "train_loop a net epoch n (Suc i) bs s1") auto
    with hd None Cons.prems have evs: "evs = evs1 @ evs2" by simp
    have "Suc i + length bs \<le> n" using Cons.prems(2) by simp
    from Cons.IH [OF tl this] train_batch_reveals [OF hd _ i] Cons.prems(3) evs
    show ?thesis by auto
  qed
qed

lemma train_None:
  assumes "train a net loader epoch s = (None, s', evs)"
  shows "params s' = foldl (sgd_update net (opt_lr s)) (params s) loader"
    and "opt_lr s' = opt_lr s"
    and "loader \<noteq> [] \<Longrightarrow> grad s' = Some (last_gradient net (opt_lr s) (params s) loader)"
    and "filter (\<lambda>e. \<not> is_report e) evs =
           [EnterTrain epoch, SetTrain] @ concat (map body_events [0..<length loader])"
proof -
  from assms obtain evs0 where
    lp: "train_loop a net epoch (length loader) 0 loader (s\<lparr>training := True\<rparr>) = (None, s', evs0)"
    and evs: "evs = [EnterTrain epoch, SetTrain] @ evs0"
    by (auto simp: train_def split: prod.splits)
  from train_loop_None [OF lp]
  show "params s' = foldl (sgd_update net (opt_lr s)) (params s) loader"
    and "opt_lr s' = opt_lr s"
    and "filter (\<lambda>e. \<not> is_report e) evs =
           [EnterTrain epoch, SetTrain] @ concat (map body_events [0..<length loader])"
    by (simp_all add: evs is_report_def)
  show "grad s' = Some (last_gradient net (opt_lr s) (params s) loader)" if "loader \<noteq> []"
    using train_loop_grad [OF lp that] by simp
qed

lemma train_total:
  assumes "log_interval a \<noteq> 0" and "well_shaped net loader"
  shows "\<exists>s' evs. train a net loader epoch s = (None, s', evs)"
proof -
  from train_loop_total [OF assms] obtain s' evs where
    "train_loop a net epoch (length loader) 0 loader (s\<lparr>training := True\<rparr>) = (None, s', evs)"
    by blast
  then show ?thesis by (simp add: train_def)
qed

lemma train_reveals:
  assumes "train a net loader epoch s = (r, s', evs)" and "e \<in> set evs"
  shows "good_reveal a (length loader) e"
proof -
  obtain r0 s0 evs0 where
    lp: "train_loop a net epoch (length loader) 0 loader (s\<lparr>training := True\<rparr>) = (r0, s0, evs0)"
    by (cases "train_loop a net epoch (length loader) 0 loader (s\<lparr>training := True\<rparr>)") auto
  with assms(1) have "evs = [EnterTrain epoch, SetTrain] @ evs0" by (simp add: train_def)
  with assms(2) have "e = EnterTrain epoch \<or> e = SetTrain \<or> e \<in> set evs0" by auto
  with train_loop_reveals [OF lp, of e] show ?thesis
    by (auto simp: good_reveal_def)
qed

lemma train_loop_trace:
  "train_loop a net epoch n i bs s = (None, s', evs) \<Longrightarrow>
     evs = train_trace a net (opt_lr s) epoch n i (params s) bs \<and>
     s' = (if bs = [] then s
           else s\<lparr>grad := Some (last_gradient net (opt_lr s) (params s) bs),
                  params := foldl (sgd_update net (opt_lr s)) (params s) bs\<rparr>)"
proof (induction bs arbitrary: i s s' evs)
  case Nil
  then show ?case by simp
next
  case (Cons b bs)
  obtain data target where b: "b = (data, target)" by (cases b)
  from Cons.prems obtain s1 evs1 evs2 where
    hd: "train_batch a net epoch n i (data, target) s = (None, s1, evs1)" and
    tl: "train_loop a net epoch n (Suc i) bs s1 = (None, s', evs2)" and
    evs: "evs = evs1 @ evs2"
    by (auto simp: b split: prod.splits option.splits)
  note one = train_batch_None_trace [OF hd]
  from one(2) have s1: "opt_lr s1 = opt_lr s"
      "params s1 = sgd_update net (opt_lr s) (params s) b"
    by (simp_all add: b)
  note ih = Cons.IH [OF tl]
  have "evs = train_trace a net (opt_lr s) epoch n i (params s) (b # bs)"
    using ih [THEN conjunct1] one(1) by (simp add: evs s1 b)
  moreover have
    "s' = s\<lparr>grad := Some (last_gradient net (opt_lr s) (params s) (b # bs)),
            params := foldl (sgd_update net (opt_lr s)) (params s) (b # bs)\<rparr>"
  proof (cases "bs = []")
    case True
    with ih have "s' = s1" by simp
    with one(2) show ?thesis by (simp add: True last_gradient_def b)
  next
    case False
    with ih have "s' = s1\<lparr>grad := Some (last_gradient net (opt_lr s1) (params s1) bs),
                          params := foldl (sgd_update net (opt_lr s1)) (params s1) bs\<rparr>"
      by simp
    then show ?thesis
      by (simp add: s1 one(2) last_gradient_def False b)
  qed
  ultimately show ?case by simp
qed

lemma train_None_trace:
  assumes "train a net loader epoch s = (None, s', evs)"
  shows "evs = [EnterTrain epoch, SetTrain] @
               train_trace a net (opt_lr s) epoch (length loader) 0 (params s) loader"
    and "s' = (if loader = [] then s\<lparr>training := True\<rparr>
               else s\<lparr>training := True,
                      grad := Some (last_gradient net (opt_lr s) (params s) loader),
                      params := foldl (sgd_update net (opt_lr s)) (params s) loader\<rparr>)"
proof -
  from assms obtain evs0 where
    lp: "train_loop a net epoch (length loader) 0 loader (s\<lparr>training := True\<rparr>) = (None, s', evs0)"
    and evs: "evs = [EnterTrain epoch, SetTrain] @ evs0"
    by (auto simp: train_def split: prod.splits)
  from train_loop_trace [OF lp] evs
  show "evs = [EnterTrain epoch, SetTrain] @
               train_trace a net (opt_lr s) epoch (length loader) 0 (params s) loader"
    and "s' = (if loader = [] then s\<lparr>training := True\<rparr>
               else s\<lparr>training := True,
                      grad := Some (last_gradient net (opt_lr s) (params s) loader),
                      params := foldl (sgd_update net (opt_lr s)) (params s) loader\<rparr>)"
    by simp_all
qed

lemma batches_taken_filter:
  "batches_taken (filter (\<lambda>e. \<not> is_report e) evs) = batches_taken evs"
  by (induction evs) (auto simp: batches_taken_def is_report_def split: event.splits)

lemma count_event_filter:
  "\<not> is_report e \<Longrightarrow> count_event e (filter (\<lambda>x. \<not> is_report x) evs) = count_event e evs"
  by (induction evs) (auto simp: count_event_def)

lemma batches_taken_bodies: "batches_taken (concat (map body_events xs)) = xs"
  by (induction xs) (simp_all add: batches_taken_def body_events_def)

lemma count_event_bodies:
  "e = Forward \<or> e = Backward \<or> e = OptStep \<or> e = ZeroGrad \<Longrightarrow>
     count_event e (concat (map body_events xs)) = length xs"
  by (induction xs) (auto simp: count_event_def body_events_def)

lemma count_event_append: "count_event e (xs @ ys) = count_event e xs + count_event e ys"
  by (simp add: count_event_def)

lemma batches_taken_append: "batches_taken (xs @ ys) = batches_taken xs @ batches_taken ys"
  by (simp add: batches_taken_def)

lemma train_calls:
  assumes "train a net loader epoch s = (None, s', evs)"
  shows "batches_taken evs = [0..<length loader]"
    and "e = Forward \<or> e = Backward \<or> e = OptStep \<or> e = ZeroGrad \<Longrightarrow>
           count_event e evs = length loader"
proof -
  note sk = train_None(4) [OF assms]
  have "batches_taken evs = batches_taken (filter (\<lambda>e. \<not> is_report e) evs)"
    by (simp add: batches_taken_filter)
  also have "\<dots> = [0..<length loader]"
  proof -
    have "batches_taken [EnterTrain epoch, SetTrain] = []"
      by (simp add: batches_taken_def)
    then show ?thesis
      unfolding sk by (simp only: batches_taken_append batches_taken_bodies append_Nil)
  qed
  finally show "batches_taken evs = [0..<length loader]" .
  assume e: "e = Forward \<or> e = Backward \<or> e = OptStep \<or> e = ZeroGrad"
  then have nr: "\<not> is_report e" by (auto simp: is_report_def)
  have "count_event e evs = count_event e (filter (\<lambda>x. \<not> is_report x) evs)"
    using nr by (simp add: count_event_filter)
  also have "\<dots> = length loader"
  proof -
    have "count_event e [EnterTrain epoch, SetTrain] = 0"
      using e by (auto simp: count_event_def)
    then show ?thesis
      unfolding sk using count_event_bodies [OF e, of "[0..<length loader]"]
      by (simp only: count_event_append add_0 length_upt diff_zero)
  qed
  finally show "count_event e evs = length loader" .
qed

lemma filter_gradient_calls_reports:
  "filter is_gradient_call (filter (\<lambda>e. \<not> is_report e) evs) = filter is_gradient_call evs"
proof -
  have "is_gradient_call e \<Longrightarrow> \<not> is_report e" for e
    by (auto simp: is_gradient_call_def is_report_def)
  then show ?thesis by (induction evs) auto
qed

lemma filter_gradient_calls_bodies:
  "filter is_gradient_call (concat (map body_events xs)) =
     concat (replicate (length xs) [ZeroGrad, Backward, OptStep])"
  by (induction xs) (simp_all add: body_events_def is_gradient_call_def)

subsection \<open>test\<close>

lemma counter_add_value: "counter_add c x = Shared (counter_value c + x)"
  by (cases c) (simp_all add: counter_value_def)

lemma eq_sum_n_correct:
  "eq_sum (map argmax_row output) target = real (n_correct output target)"
proof -
  have "sum_list (map2 (\<lambda>p t. if real p = t then 1 else 0) (map argmax_row xs) ys) =
          real (length (filter (\<lambda>(row, t). real (argmax_row row) = t) (zip xs ys)))"
    for xs :: tensor and ys :: "real list"
    by (induction xs ys rule: list_induct2') simp_all
  then show ?thesis by (simp add: eq_sum_def n_correct_def)
qed

lemma test_loop_events:
  "test_loop net p bs c = (r, c', evs) \<Longrightarrow>
     \<exists>k \<le> length bs. evs = replicate k Forward"
proof (induction bs arbitrary: c r c' evs)
  case Nil
  then show ?case by simp
next
  case (Cons b bs)
  obtain data target where b: "b = (data, target)" by (cases b)
  show ?case
  proof (cases "argmax (forward net p data)")
    case (Inl e)
    with Cons.prems b have "evs = replicate 1 Forward" by simp
    then show ?thesis by (intro exI [of _ 1]) simp
  next
    case (Inr pred)
    show ?thesis
    proof (cases "length target = length pred")
      case False
      with Inr Cons.prems b have "evs = replicate 1 Forward" by simp
      then show ?thesis by (intro exI [of _ 1]) simp
    next
      case True
      obtain r2 c2 evs2 where
        tl: "test_loop net p bs (counter_add c (eq_sum pred target)) = (r2, c2, evs2)"
        by (cases "test_loop net p bs (counter_add c (eq_sum pred target))") auto
      with Inr True Cons.prems b have evs: "evs = Forward # evs2" by simp
      from Cons.IH [OF tl] obtain k where "k \<le> length bs" "evs2 = replicate k Forward"
        by blast
      with evs show ?thesis by (intro exI [of _ "Suc k"]) simp
    qed
  qed
qed

lemma test_loop_None:
  "test_loop net p bs c = (None, c', evs) \<Longrightarrow>
     evs = replicate (length bs) Forward \<and>
     (bs = [] \<longrightarrow> c' = c) \<and>
     (bs \<noteq> [] \<longrightarrow> c' = Shared (counter_value c + correct_count net p bs))"
proof (induction bs arbitrary: c c' evs)
  case Nil
  then show ?case by simp
next
  case (Cons b bs)
  obtain data target where b: "b = (data, target)" by (cases b)
  from Cons.prems obtain pred evs2 where
    am: "argmax (forward net p data) = Inr pred" and
    len: "length target = length pred" and
    tl: "test_loop net p bs (counter_add c (eq_sum pred target)) = (None, c', evs2)" and
    evs: "evs = Forward # evs2"
    by (auto simp: b split: sum.splits if_splits prod.splits)
  from am have pred: "pred = map argmax_row (forward net p data)"
    by (simp add: argmax_def split: if_splits)
  have cv: "counter_value (counter_add c (eq_sum pred target)) =
              counter_value c + real (n_correct (forward net p data) target)"
    by (simp add: counter_add_value counter_value_def pred eq_sum_n_correct)
  note ih = Cons.IH [OF tl]
  have "c' = Shared (counter_value c + correct_count net p (b # bs))"
  proof (cases "bs = []")
    case True
    with ih have "c' = counter_add c (eq_sum pred target)" by simp
    then show ?thesis
      by (simp add: True counter_add_value correct_count_def b pred eq_sum_n_correct)
  next
    case False
    with ih have "c' = Shared (counter_value (counter_add c (eq_sum pred target)) +
                                correct_count net p bs)" by simp
    then show ?thesis by (simp add: cv correct_count_def b)
  qed
  with ih evs show ?case by simp
qed

lemma test_loop_total:
  "well_shaped_test net bs \<Longrightarrow> \<exists>c' evs. test_loop net p bs c = (None, c', evs)"
proof (induction bs arbitrary: c)
  case Nil
  then show ?case by simp
next
  case (Cons b bs)
  obtain data target where b: "b = (data, target)" by (cases b)
  from Cons.prems have shp: "[] \<notin> set (forward net p data)"
      "length target = length (forward net p data)"
    and rest: "well_shaped_test net bs"
    by (auto simp: well_shaped_test_def b)
  from shp(1) have am: "argmax (forward net p data) = Inr (map argmax_row (forward net p data))"
    by (simp add: argmax_def)
  from Cons.IH [OF rest] obtain c2 evs2 where
    "test_loop net p bs (counter_add c (eq_sum (map argmax_row (forward net p data)) target))
       = (None, c2, evs2)" by blast
  with am shp(2) show ?case by (simp add: b)
qed

lemma test_state:
  "test a net loader s = (r, s', evs) \<Longrightarrow> s' = s\<lparr>training := False\<rparr>"
  by (auto simp: test_def Let_def split: prod.splits option.splits counter.splits if_splits)

lemma test_None:
  assumes "test a net loader s = (None, s', evs)"
  shows "loader \<noteq> [] \<and> test_batch_size a \<noteq> 0 \<and>
         evs = [EnterTest, SetEval, NoGradEnter] @ replicate (length loader) Forward @
               [NoGradExit, Get InTest (Scalar (correct_count net (params s) loader)),
                PrintTest (correct_count net (params s) loader)
                  (int (length loader) * test_batch_size a)]"
proof -
  from assms obtain c evs0 x where
    lp: "test_loop net (params s) loader (PyInt 0) = (None, c, evs0)" and
    c: "c = Shared x" and
    tot: "int (length loader) * test_batch_size a \<noteq> 0" and
    evs: "evs = [EnterTest, SetEval, NoGradEnter] @ evs0 @
                [NoGradExit, Get InTest (Scalar x),
                 PrintTest x (int (length loader) * test_batch_size a)]"
    by (auto simp: test_def Let_def split: prod.splits option.splits counter.splits if_splits)
  note tl = test_loop_None [OF lp]
  from tl c have ne: "loader \<noteq> []" by auto
  with tl c have "x = correct_count net (params s) loader"
    by (simp add: counter_value_def)
  with tl evs ne tot show ?thesis by simp
qed

lemma test_events:
  assumes "test a net loader s = (r, s', evs)"
  shows "\<exists>k \<le> length loader. \<exists>tail \<in> test_reports (correct_count net (params s) loader)
                                       (int (length loader) * test_batch_size a).
           evs = [EnterTest, SetEval, NoGradEnter] @ replicate k Forward @ [NoGradExit] @ tail"
proof -
  obtain r0 c evs0 where lp: "test_loop net (params s) loader (PyInt 0) = (r0, c, evs0)"
    by (cases "test_loop net (params s) loader (PyInt 0)") auto
  from test_loop_events [OF lp] obtain k where k: "k \<le> length loader" "evs0 = replicate k Forward"
    by blast
  show ?thesis
  proof (cases r0)
    case (Some e)
    with lp assms have "evs = [EnterTest, SetEval, NoGradEnter] @ evs0 @ [NoGradExit] @ []"
      by (simp add: test_def)
    with k show ?thesis unfolding test_reports_def by blast
  next
    case None
    note tl = test_loop_None [OF lp [unfolded None]]
    show ?thesis
    proof (cases c)
      case (PyInt j)
      with lp None assms have "evs = [EnterTest, SetEval, NoGradEnter] @ evs0 @ [NoGradExit] @ []"
        by (simp add: test_def)
      with k show ?thesis unfolding test_reports_def by blast
    next
      case (Shared x)
      with tl have ne: "loader \<noteq> []" by auto
      with tl Shared have x: "x = correct_count net (params s) loader"
        by (simp add: counter_value_def)
      from lp None Shared assms have
        "evs = [EnterTest, SetEval, NoGradEnter] @ evs0 @ [NoGradExit] @ [Get InTest (Scalar x)] \<or>
         evs = [EnterTest, SetEval, NoGradEnter] @ evs0 @ [NoGradExit] @
               [Get InTest (Scalar x), PrintTest x (int (length loader) * test_batch_size a)]"
        by (auto simp: test_def Let_def split: if_splits)
      with k x show ?thesis unfolding test_reports_def by blast
    qed
  qed
qed

lemma test_total:
  assumes "loader \<noteq> []" and "test_batch_size a \<noteq> 0" and "well_shaped_test net loader"
  shows "\<exists>s' evs. test a net loader s = (None, s', evs)"
proof -
  from test_loop_total [OF assms(3)] obtain c evs0 where
    lp: "test_loop net (params s) loader (PyInt 0) = (None, c, evs0)" by blast
  from test_loop_None [OF lp] assms(1) obtain x where "c = Shared x" by auto
  with lp assms(1,2) show ?thesis by (simp add: test_def Let_def)
qed

lemma test_reveals:
  assumes "test a net loader s = (r, s', evs)" and "e \<in> set evs"
  shows "good_reveal a n e"
proof -
  from test_events [OF assms(1)] obtain k tail where
    "tail \<in> test_reports (correct_count net (params s) loader)
              (int (length loader) * test_batch_size a)"
    "evs = [EnterTest, SetEval, NoGradEnter] @ replicate k Forward @ [NoGradExit] @ tail"
    by blast
  with assms(2) show ?thesis
    by (auto simp: test_reports_def good_reveal_def)
qed


lemma test_None_trace:
  assumes "test a net loader s = (None, s', evs)"
  shows "evs = test_trace a net (params s) loader" and "s' = s\<lparr>training := False\<rparr>"
  using test_None [OF assms] test_state [OF assms] by (simp_all add: test_trace_def)

subsection \<open>The epoch loop\<close>

lemma epoch_loop_reveals:
  "epoch_loop a net trl tel es s = (r, s', evs) \<Longrightarrow> e \<in> set evs \<Longrightarrow>
     good_reveal a (length trl) e"
proof (induction es arbitrary: s r s' evs)
  case Nil
  then show ?case by simp
next
  case (Cons epoch es)
  obtain r1 s1 evs1 where tr: "train a net trl epoch s = (r1, s1, evs1)"
    by (cases "train a net trl epoch s") auto
  obtain r2 s2 evs2 where te: "test a net tel s1 = (r2, s2, evs2)"
    by (cases "test a net tel s1") auto
  obtain r3 s3 evs3 where lp: "epoch_loop a net trl tel es s2 = (r3, s3, evs3)"
    by (cases "epoch_loop a net trl tel es s2") auto
  from Cons.prems(1) tr te lp have "set evs \<subseteq> set evs1 \<union> set evs2 \<union> set evs3"
    by (auto split: option.splits)
  with Cons.prems(2) have "e \<in> set evs1 \<or> e \<in> set evs2 \<or> e \<in> set evs3" by blast
  with train_reveals [OF tr] test_reveals [OF te] Cons.IH [OF lp] show ?case by blast
qed



lemma epoch_loop_trace:
  "epoch_loop a net trl tel es s = (None, s', evs) \<Longrightarrow>
     evs = run_trace a net (opt_lr s) trl tel es (params s) \<and>
     params s' = run_params net (opt_lr s) trl es (params s) \<and>
     opt_lr s' = opt_lr s"
proof (induction es arbitrary: s s' evs)
  case Nil
  then show ?case by simp
next
  case (Cons epoch es)
  from Cons.prems obtain s1 evs1 s2 evs2 evs3 where
    tr: "train a net trl epoch s = (None, s1, evs1)" and
    te: "test a net tel s1 = (None, s2, evs2)" and
    lp: "epoch_loop a net trl tel es s2 = (None, s', evs3)" and
    evs: "evs = evs1 @ evs2 @ evs3"
    by (auto split: prod.splits option.splits)
  from train_None_trace(2) [OF tr] have s1: "opt_lr s1 = opt_lr s"
      "params s1 = foldl (sgd_update net (opt_lr s)) (params s) trl"
    by (simp_all split: if_splits)
  from test_None_trace(2) [OF te] s1 have s2: "opt_lr s2 = opt_lr s"
      "params s2 = foldl (sgd_update net (opt_lr s)) (params s) trl"
    by simp_all
  from Cons.IH [OF lp] train_None_trace(1) [OF tr] test_None_trace(1) [OF te]
  show ?case by (simp add: evs s1 s2)
qed





subsection \<open>The revealed values\<close>

lemma filter_reveal_body: "filter is_reveal (body_events i) = []"
  by (simp add: body_events_def is_reveal_def)

lemma filter_reveal_log:
  "filter is_reveal (log_events a epoch n i l) =
     (if int i mod log_interval a = 0 then [Get (InTrain i) (Scalar l)] else [])"
  by (simp add: log_events_def is_reveal_def)

lemma filter_reveal_train_trace:
  "filter is_reveal (train_trace a net rate epoch n i p bs) = train_reveals a net rate i p bs"
  by (induction bs arbitrary: i p) (simp_all add: filter_reveal_body filter_reveal_log)

lemma filter_reveal_test_trace:
  "filter is_reveal (test_trace a net p tel) = [Get InTest (Scalar (correct_count net p tel))]"
  by (simp add: test_trace_def is_reveal_def)

lemma filter_reveal_run_trace:
  "filter is_reveal (run_trace a net rate trl tel es p) = run_reveals a net rate trl tel es p"
  by (induction es arbitrary: p)
     (simp_all add: filter_reveal_train_trace filter_reveal_test_trace is_reveal_def)

lemma train_batch_error_reveals:
  assumes "train_batch a net epoch n i b s = (Some e, s', evs)"
  shows "filter is_reveal evs = []"
proof -
  obtain data target where b: "b = (data, target)" by (cases b)
  show ?thesis
  proof (cases "mse_loss (forward net (params s) data) target")
    case (Inl err)
    with assms b show ?thesis by (auto simp: train_batch_error is_reveal_def)
  next
    case (Inr l)
    show ?thesis
    proof (cases "log_interval a = 0")
      case True
      with Inr assms b show ?thesis
        by (auto simp: train_batch_zero_interval filter_reveal_body)
    next
      case False
      with Inr assms b show ?thesis by (simp add: train_batch_ok)
    qed
  qed
qed

lemma train_loop_reveal_prefix:
  "train_loop a net epoch n i bs s = (r, s', evs) \<Longrightarrow>
     prefix (filter is_reveal evs) (train_reveals a net (opt_lr s) i (params s) bs)"
proof (induction bs arbitrary: i s r s' evs)
  case Nil
  then show ?case by simp
next
  case (Cons b bs)
  obtain data target where b: "b = (data, target)" by (cases b)
  obtain r1 s1 evs1 where hd: "train_batch a net epoch n i b s = (r1, s1, evs1)"
    by (cases "train_batch a net epoch n i b s") auto
  show ?case
  proof (cases r1)
    case (Some err)
    with hd Cons.prems have "evs = evs1" by simp
    with train_batch_error_reveals [OF hd [unfolded Some]] show ?thesis by simp
  next
    case None
    obtain r2 s2 evs2 where tl: "train_loop a net epoch n (Suc i) bs s1 = (r2, s2, evs2)"
      by (cases "train_loop a net epoch n (Suc i) bs s1") auto
    with hd None Cons.prems have evs: "evs = evs1 @ evs2" by simp
    note one = train_batch_None_trace [OF hd [unfolded None b]]
    from one(2) have s1: "opt_lr s1 = opt_lr s"
        "params s1 = sgd_update net (opt_lr s) (params s) b"
      by (simp_all add: b)
    from Cons.IH [OF tl] show ?thesis
      by (simp add: evs one(1) s1 b filter_reveal_body filter_reveal_log)
  qed
qed

lemma train_reveal_prefix:
  assumes "train a net loader epoch s = (r, s', evs)"
  shows "prefix (filter is_reveal evs) (train_reveals a net (opt_lr s) 0 (params s) loader)"
proof -
  obtain r0 s0 evs0 where
    lp: "train_loop a net epoch (length loader) 0 loader (s\<lparr>training := True\<rparr>) = (r0, s0, evs0)"
    by (cases "train_loop a net epoch (length loader) 0 loader (s\<lparr>training := True\<rparr>)") auto
  with assms have "evs = [EnterTrain epoch, SetTrain] @ evs0" by (simp add: train_def)
  with train_loop_reveal_prefix [OF lp] show ?thesis by (simp add: is_reveal_def)
qed

lemma test_reveal_prefix:
  assumes "test a net loader s = (r, s', evs)"
  shows "prefix (filter is_reveal evs) [Get InTest (Scalar (correct_count net (params s) loader))]"
proof -
  from test_events [OF assms] obtain k tail where
    "tail \<in> test_reports (correct_count net (params s) loader)
              (int (length loader) * test_batch_size a)"
    "evs = [EnterTest, SetEval, NoGradEnter] @ replicate k Forward @ [NoGradExit] @ tail"
    by blast
  then show ?thesis
    by (auto simp: test_reports_def is_reveal_def)
qed

lemma epoch_loop_reveal_prefix:
  "epoch_loop a net trl tel es s = (r, s', evs) \<Longrightarrow>
     prefix (filter is_reveal evs) (run_reveals a net (opt_lr s) trl tel es (params s))"
proof (induction es arbitrary: s r s' evs)
  case Nil
  then show ?case by simp
next
  case (Cons epoch es)
  let ?p = "foldl (sgd_update net (opt_lr s)) (params s) trl"
  obtain r1 s1 evs1 where tr: "train a net trl epoch s = (r1, s1, evs1)"
    by (cases "train a net trl epoch s") auto
  show ?case
  proof (cases r1)
    case (Some err)
    with tr Cons.prems have "evs = evs1" by simp
    with train_reveal_prefix [OF tr] show ?thesis by simp
  next
    case None
    note tr = tr [unfolded None]
    from train_None_trace(2) [OF tr] have s1: "opt_lr s1 = opt_lr s" "params s1 = ?p"
      by (simp_all split: if_splits)
    have r1: "filter is_reveal evs1 = train_reveals a net (opt_lr s) 0 (params s) trl"
      using train_None_trace(1) [OF tr] by (simp add: filter_reveal_train_trace is_reveal_def)
    obtain r2 s2 evs2 where te: "test a net tel s1 = (r2, s2, evs2)"
      by (cases "test a net tel s1") auto
    show ?thesis
    proof (cases r2)
      case (Some err)
      with tr te Cons.prems have evs: "evs = evs1 @ evs2" by simp
      from test_reveal_prefix [OF te] have
        "prefix (filter is_reveal evs2)
           ([Get InTest (Scalar (correct_count net ?p tel))] @
            run_reveals a net (opt_lr s) trl tel es ?p)"
        unfolding s1 by (rule prefix_prefix)
      then show ?thesis by (simp add: evs r1)
    next
      case None
      note te = te [unfolded None]
      from test_None_trace [OF te] s1 have s2: "opt_lr s2 = opt_lr s" "params s2 = ?p"
        and r2: "filter is_reveal evs2 = [Get InTest (Scalar (correct_count net ?p tel))]"
        by (simp_all add: filter_reveal_test_trace)
      obtain r3 s3 evs3 where lp: "epoch_loop a net trl tel es s2 = (r3, s3, evs3)"
        by (cases "epoch_loop a net trl tel es s2") auto
      with tr te Cons.prems have "evs = evs1 @ evs2 @ evs3" by simp
      with Cons.IH [OF lp] show ?thesis by (simp add: r1 r2 s2)
    qed
  qed
qed

subsection \<open>The epoch loop of the federated notebook\<close>



subsection \<open>The data loaders\<close>

lemma share_train_data:
  "share_train fix bs = Inr r \<Longrightarrow> map fst r = map (secret_share fix \<circ> fst) bs"
proof (induction bs arbitrary: r)
  case Nil
  then show ?case by simp
next
  case (Cons b bs)
  obtain data target where b: "b = (data, target)" by (cases b)
  from Cons.prems obtain onehot rest where
    "share_train fix bs = Inr rest" and
    "r = (secret_share fix data, secret_share fix onehot) # rest"
    by (auto simp: b split: sum.splits)
  with Cons.IH [of rest] show ?case by (simp add: b)
qed

lemma share_test_data: "map fst (share_test fix bs) = map (secret_share fix \<circ> fst) bs"
  by (simp add: share_test_def case_prod_beta comp_def)

lemma test_split_never_read:
  "mnist True = mnist' True \<Longrightarrow>
     get_private_data_loaders fix_precision mnist precision =
     get_private_data_loaders fix_precision mnist' precision"
proof -
  assume "mnist True = mnist' True"
  then have eq: "MNIST mnist True = MNIST mnist' True" by (simp add: MNIST_def)
  show ?thesis unfolding get_private_data_loaders_def eq by (rule refl)
qed

subsection \<open>Averaging\<close>

lemma tensor_mean_replicate:
  assumes "0 < N"
  shows "tensor_mean (length t) (replicate N t) = t"
proof -
  have "sum_list (map (\<lambda>u. u ! j) (replicate N t)) / real (length (replicate N t)) = t ! j" for j
    using assms by (simp add: sum_list_replicate)
  then have "tensor_mean (length t) (replicate N t) = map (\<lambda>j. t ! j) [0..<length t]"
    unfolding tensor_mean_def by simp
  then show ?thesis by (simp add: map_nth)
qed




subsection \<open>The windows of an epoch of federated averaging\<close>





subsection \<open>The small instance\<close>

lemma sample_train_well_shaped: "well_shaped scale_net sample_train"
  by (simp add: well_shaped_def scale_net_def sample_train_def)

lemma sample_test_well_shaped: "well_shaped_test scale_net sample_test"
  by (simp add: well_shaped_test_def scale_net_def sample_test_def)

lemmas eval_defs =
  train_def train_batch_def test_def run_def initial_state_def mse_loss_def tsub_def
  tsquare_def tsum_def zero_grad_def backward_def step_def argmax_def argmax_row_def eq_sum_def
  scale_net_def sample_train_def sample_test_def sample_state_def args_def Let_def

section \<open>The claims\<close>

text \<open>
  Claim C1. In every execution of the epoch loop the values revealed are, in order,
  a prefix of this list, and the whole list when the run returns: in each epoch the
  loss of every training batch whose position \<open>log_interval\<close> divides, that loss being
  the mean squared difference of output and target of that batch at the parameters
  the batches before it led to, then once the number of correct predictions over the
  whole test set at the parameters after this epoch's training. Every revealed value
  is a scalar, revealed by \<open>test\<close> or by the logging step of \<open>train\<close>; no parameter
  tensor and no batch tensor is revealed.
\<close>

theorem reveals_only_scalars:
  "case run a net trl tel p of
     (r, s', evs) \<Rightarrow>
       prefix (filter is_reveal evs) (run_reveals a net (lr a) trl tel [1..epochs a] p) \<and>
       (r = None \<longrightarrow>
          filter is_reveal evs = run_reveals a net (lr a) trl tel [1..epochs a] p) \<and>
       (\<forall>st v. Get st v \<in> set evs \<longrightarrow>
          (\<exists>x. v = Scalar x) \<and>
          (st = InTest \<or> (\<exists>i < length trl. st = InTrain i \<and> int i mod log_interval a = 0)))"
proof -
  obtain r s' evs where res: "run a net trl tel p = (r, s', evs)"
    by (cases "run a net trl tel p") auto
  then have lp: "epoch_loop a net trl tel [1..epochs a] (initial_state a p) = (r, s', evs)"
    by (simp add: run_def)
  have init: "opt_lr (initial_state a p) = lr a" "params (initial_state a p) = p"
    by (simp_all add: initial_state_def)
  have "prefix (filter is_reveal evs) (run_reveals a net (lr a) trl tel [1..epochs a] p)"
    using epoch_loop_reveal_prefix [OF lp] by (simp only: init)
  moreover have "filter is_reveal evs = run_reveals a net (lr a) trl tel [1..epochs a] p"
    if "r = None"
    using epoch_loop_trace [OF lp [unfolded that]]
    by (simp add: init filter_reveal_run_trace)
  moreover have
    "(\<exists>x. v = Scalar x) \<and>
     (st = InTest \<or> (\<exists>i < length trl. st = InTrain i \<and> int i mod log_interval a = 0))"
    if "Get st v \<in> set evs" for st v
  proof -
    from epoch_loop_reveals [OF lp that]
    have "good_reveal a (length trl) (Get st v)" .
    then show ?thesis
      by (cases v; cases st) (simp_all add: good_reveal_def)
  qed
  ultimately show ?thesis by (simp add: res)
qed

theorem reveals_only_scalars_witness:
  "fst (run (args\<lparr>epochs := 1, log_interval := 2\<rparr>) scale_net sample_train sample_test 1) = None \<and>
   filter is_reveal
     (snd (snd (run (args\<lparr>epochs := 1, log_interval := 2\<rparr>) scale_net sample_train sample_test 1))) =
     [Get (InTrain 0) (Scalar 4), Get InTest (Scalar 2)] \<and>
   run_reveals (args\<lparr>epochs := 1, log_interval := 2\<rparr>) scale_net
     (lr (args\<lparr>epochs := 1, log_interval := 2\<rparr>)) sample_train sample_test
     [1..epochs (args\<lparr>epochs := 1, log_interval := 2\<rparr>)] 1 =
     [Get (InTrain 0) (Scalar 4), Get InTest (Scalar 2)]"
proof -
  have ok: "fst (run (args\<lparr>epochs := 1, log_interval := 2\<rparr>) scale_net sample_train sample_test 1) = None"
    and rev: "filter is_reveal
     (snd (snd (run (args\<lparr>epochs := 1, log_interval := 2\<rparr>) scale_net sample_train sample_test 1))) =
     [Get (InTrain 0) (Scalar 4), Get InTest (Scalar 2)]"
    by (simp_all add: eval_defs upto.simps is_reveal_def)
  from reveals_only_scalars [where a = "args\<lparr>epochs := 1, log_interval := 2\<rparr>"
      and net = scale_net and trl = sample_train and tel = sample_test and p = 1] ok rev
  show ?thesis by (simp add: case_prod_beta)
qed

text \<open>
  Claim C2. For a batch whose output is not empty and has the shape of the target, and
  a logging interval that is not zero, one pass of the loop body computes as its loss
  the mean over the batch of the squared difference between output and target, and
  leaves the parameters one gradient-descent step away: the old parameters minus the
  optimizer's learning rate times the gradient of this batch. The learning rate itself
  is unchanged. The calls are: zero the gradients, forward, backward, optimizer step,
  then the report of the loss where the interval asks for it.
\<close>

theorem local_step:
  assumes "forward net (params s) data \<noteq> []"
    and "map length (forward net (params s) data) = map length target"
    and "log_interval a \<noteq> 0"
  shows "mse_loss (forward net (params s) data) target =
           Inr (mean_sq_diff (forward net (params s) data) target) \<and>
         train_batch a net epoch n i (data, target) s =
           (None,
            s\<lparr>grad := Some (autograd net (params s) data target),
              params := params s - opt_lr s *\<^sub>R autograd net (params s) data target\<rparr>,
            body_events i @
            log_events a epoch n i (mean_sq_diff (forward net (params s) data) target))"
proof -
  note loss = mse_loss_mean [OF assms(1,2)]
  from train_batch_ok [OF loss assms(3)] loss show ?thesis by simp
qed

theorem local_step_witness:
  "forward scale_net (params sample_state) [[1, 2]] \<noteq> [] \<and>
   map length (forward scale_net (params sample_state) [[1, 2]]) = map length [[1, 0::real]] \<and>
   log_interval args \<noteq> 0 \<and>
   mse_loss (forward scale_net (params sample_state) [[1, 2]]) [[1, 0]] = Inr 4 \<and>
   train_batch args scale_net 1 2 0 ([[1, 2]], [[1, 0]]) sample_state =
     (None, \<lparr>params = - 3, grad = Some 8, training = False, opt_lr = 1 / 2\<rparr>,
      [NextBatch 0, ZeroGrad, Forward, Backward, OptStep, Get (InTrain 0) (Scalar 4),
       PrintTrain 1 0 128 4])"
  using local_step [where net = scale_net and s = sample_state and data = "[[1, 2]]"
                      and target = "[[1, 0]]" and a = args and epoch = 1 and n = 2 and i = 0]
  by (simp add: scale_net_def sample_state_def args_def mean_sq_diff_def sq_diff_def
                body_events_def log_events_def tsum_def)

text \<open>
  Claim C3. \<open>train\<close> returns on every well-shaped loader with a logging interval that
  is not zero, and when it returns its calls are those of \<open>train_trace\<close>: the loop body
  once on the batch at each position \<open>0, ..., n - 1\<close> of the loader, in this order, each
  at the parameters the batches before it led to, with the loss of that very batch
  reported where the interval asks. The state it leaves has the parameters after one
  gradient-descent step per batch, folded over the loader in order, and the gradient
  of the last batch; an empty loader leaves parameters and gradient as they were. So
  every batch is taken once, and there are as many forward passes, backward passes
  and optimizer steps as batches.
\<close>

theorem one_step_per_batch:
  "case train a net loader epoch s of
     (r, s', evs) \<Rightarrow>
       (log_interval a \<noteq> 0 \<and> well_shaped net loader \<longrightarrow> r = None) \<and>
       (r = None \<longrightarrow>
          evs = [EnterTrain epoch, SetTrain] @
                train_trace a net (opt_lr s) epoch (length loader) 0 (params s) loader \<and>
          s' = (if loader = [] then s\<lparr>training := True\<rparr>
                else s\<lparr>training := True,
                       grad := Some (last_gradient net (opt_lr s) (params s) loader),
                       params := foldl (sgd_update net (opt_lr s)) (params s) loader\<rparr>) \<and>
          filter (\<lambda>e. \<not> is_report e) evs =
            [EnterTrain epoch, SetTrain] @ concat (map body_events [0..<length loader]) \<and>
          batches_taken evs = [0..<length loader] \<and>
          count_event Forward evs = length loader \<and>
          count_event Backward evs = length loader \<and>
          count_event OptStep evs = length loader)"
proof -
  obtain r s' evs where run: "train a net loader epoch s = (r, s', evs)"
    by (cases "train a net loader epoch s") auto
  have "r = None" if "log_interval a \<noteq> 0" and "well_shaped net loader"
    using train_total [OF that, of epoch s] run by auto
  moreover have
    "evs = [EnterTrain epoch, SetTrain] @
           train_trace a net (opt_lr s) epoch (length loader) 0 (params s) loader \<and>
     s' = (if loader = [] then s\<lparr>training := True\<rparr>
           else s\<lparr>training := True,
                  grad := Some (last_gradient net (opt_lr s) (params s) loader),
                  params := foldl (sgd_update net (opt_lr s)) (params s) loader\<rparr>) \<and>
     filter (\<lambda>e. \<not> is_report e) evs =
       [EnterTrain epoch, SetTrain] @ concat (map body_events [0..<length loader]) \<and>
     batches_taken evs = [0..<length loader] \<and>
     count_event Forward evs = length loader \<and>
     count_event Backward evs = length loader \<and>
     count_event OptStep evs = length loader" if "r = None"
  proof -
    note ok = run [unfolded that]
    from train_None_trace [OF ok] train_None(4) [OF ok] train_calls [OF ok]
    show ?thesis by blast
  qed
  ultimately show ?thesis by (simp only: run prod.case) blast
qed

theorem one_step_per_batch_witness:
  "log_interval args \<noteq> 0 \<and> well_shaped scale_net sample_train \<and>
   train args scale_net sample_train 1 sample_state =
     (None, \<lparr>params = 5 / 2, grad = Some (- 11), training = True, opt_lr = 1 / 2\<rparr>,
      [EnterTrain 1, SetTrain,
       NextBatch 0, ZeroGrad, Forward, Backward, OptStep,
       Get (InTrain 0) (Scalar 4), PrintTrain 1 0 128 4,
       NextBatch 1, ZeroGrad, Forward, Backward, OptStep,
       Get (InTrain 1) (Scalar (41 / 2)), PrintTrain 1 64 128 (41 / 2)]) \<and>
   train_trace args scale_net (opt_lr sample_state) 1 (length sample_train) 0
     (params sample_state) sample_train =
     [NextBatch 0, ZeroGrad, Forward, Backward, OptStep,
      Get (InTrain 0) (Scalar 4), PrintTrain 1 0 128 4,
      NextBatch 1, ZeroGrad, Forward, Backward, OptStep,
      Get (InTrain 1) (Scalar (41 / 2)), PrintTrain 1 64 128 (41 / 2)]"
proof -
  have li: "log_interval args \<noteq> 0" by (simp add: args_def)
  have run: "train args scale_net sample_train 1 sample_state =
     (None, \<lparr>params = 5 / 2, grad = Some (- 11), training = True, opt_lr = 1 / 2\<rparr>,
      [EnterTrain 1, SetTrain,
       NextBatch 0, ZeroGrad, Forward, Backward, OptStep,
       Get (InTrain 0) (Scalar 4), PrintTrain 1 0 128 4,
       NextBatch 1, ZeroGrad, Forward, Backward, OptStep,
       Get (InTrain 1) (Scalar (41 / 2)), PrintTrain 1 64 128 (41 / 2)])"
    by (simp add: eval_defs)
  from one_step_per_batch [where a = args and net = scale_net and loader = sample_train
      and epoch = 1 and s = sample_state]
    li sample_train_well_shaped run
  show ?thesis by simp
qed



text \<open>
  Claim C6. \<open>test\<close> leaves the parameters, their gradients and the learning rate as they
  were, whether it returns or raises. Every forward pass lies inside the \<open>no_grad\<close>
  block. The only value it may reveal is the count of correct predictions summed over
  all test batches, after the block is left; when it returns it has made one forward
  pass per test batch and revealed exactly that count. It returns on every well-shaped,
  non-empty loader when the test batch size is not zero.
\<close>

theorem test_does_not_change_model:
  "case test a net loader s of
     (r, s', evs) \<Rightarrow>
       params s' = params s \<and> grad s' = grad s \<and> opt_lr s' = opt_lr s \<and>
       (\<exists>k \<le> length loader.
          \<exists>tail \<in> test_reports (correct_count net (params s) loader)
                    (int (length loader) * test_batch_size a).
            evs = [EnterTest, SetEval, NoGradEnter] @ replicate k Forward @ [NoGradExit] @ tail) \<and>
       (r = None \<longrightarrow>
          evs = [EnterTest, SetEval, NoGradEnter] @ replicate (length loader) Forward @
                [NoGradExit, Get InTest (Scalar (correct_count net (params s) loader)),
                 PrintTest (correct_count net (params s) loader)
                   (int (length loader) * test_batch_size a)]) \<and>
       (loader \<noteq> [] \<and> test_batch_size a \<noteq> 0 \<and> well_shaped_test net loader \<longrightarrow> r = None)"
proof -
  obtain r s' evs where res: "test a net loader s = (r, s', evs)"
    by (cases "test a net loader s") auto
  have st: "s' = s\<lparr>training := False\<rparr>" by (rule test_state [OF res])
  have "r = None" if "loader \<noteq> []" "test_batch_size a \<noteq> 0" "well_shaped_test net loader"
    using test_total [OF that, of s] res by auto
  moreover have
    "evs = [EnterTest, SetEval, NoGradEnter] @ replicate (length loader) Forward @
           [NoGradExit, Get InTest (Scalar (correct_count net (params s) loader)),
            PrintTest (correct_count net (params s) loader)
              (int (length loader) * test_batch_size a)]" if "r = None"
    using test_None [OF res [unfolded that]] by blast
  ultimately show ?thesis
    using test_events [OF res] by (simp add: res st)
qed

theorem test_does_not_change_model_witness:
  "sample_test \<noteq> [] \<and> test_batch_size args \<noteq> 0 \<and> well_shaped_test scale_net sample_test \<and>
   params sample_state = 1 \<and> grad sample_state = Some 5 \<and>
   test args scale_net sample_test sample_state =
     (None, \<lparr>params = 1, grad = Some 5, training = False, opt_lr = 1 / 2\<rparr>,
      [EnterTest, SetEval, NoGradEnter, Forward, NoGradExit,
       Get InTest (Scalar 2), PrintTest 2 64])"
proof -
  have a: "test_batch_size args \<noteq> 0" by (simp add: args_def)
  have t: "sample_test \<noteq> []" by (simp add: sample_test_def)
  have run: "test args scale_net sample_test sample_state =
     (None, \<lparr>params = 1, grad = Some 5, training = False, opt_lr = 1 / 2\<rparr>,
      [EnterTest, SetEval, NoGradEnter, Forward, NoGradExit,
       Get InTest (Scalar 2), PrintTest 2 64])"
    by (simp add: eval_defs)
  from test_does_not_change_model [where a = args and net = scale_net
      and loader = sample_test and s = sample_state]
    a t sample_test_well_shaped run
  show ?thesis by (simp add: sample_state_def)
qed



text \<open>
  Claim C8. The average of \<open>N \<ge> 1\<close> identical copies of a model is that model. Over the
  real numbers the two are equal, not only close.
\<close>

theorem averaging_identical_copies:
  assumes "0 < N"
  shows "federated_avg (replicate N m) = Some m"
proof -
  from assms obtain K where N: "N = Suc K" by (cases N) auto
  have shapes: "list_all (same_shape m) (replicate K m)"
    by (simp add: list_all_iff same_shape_def)
  have entry: "(fst (m ! k),
                tensor_mean (length (snd (m ! k))) (map (\<lambda>c. snd (c ! k)) (replicate N m))) = m ! k"
    for k
    using tensor_mean_replicate [OF assms, of "snd (m ! k)"] by simp
  have "federated_avg (replicate N m) =
          Some (map (\<lambda>k. (fst (m ! k),
                  tensor_mean (length (snd (m ! k))) (map (\<lambda>c. snd (c ! k)) (replicate N m))))
                  [0..<length m])"
    using shapes by (simp add: federated_avg_def N)
  also have "\<dots> = Some (map (\<lambda>k. m ! k) [0..<length m])"
    by (simp only: entry)
  finally show ?thesis by (simp add: map_nth)
qed

theorem averaging_identical_copies_witness:
  "(0::nat) < 3 \<and>
   federated_avg (replicate 3 sample_model) = Some sample_model"
  using averaging_identical_copies [of 3 sample_model]
  by simp

text \<open>
  Claim C9. The claim is that the examples \<open>test\<close> runs over are disjoint from those
  \<open>train\<close> consumes. The code builds both loaders from \<open>train=True\<close>, in the same order
  and with the same sizes: on a dataset of one training example and one different
  test example, the private test loader holds the training example and nothing of the
  test split.
\<close>

theorem evaluator_runs_on_training_examples:
  "\<exists>trl tel. get_private_data_loaders (\<lambda>precision x. x) mnist_sample 3 = Inr (trl, tel) \<and>
     map fst tel = map fst trl \<and>
     examples_of tel = {[- (1307 / 3081), 8693 / 3081]} \<and>
     examples_of trl = {[- (1307 / 3081), 8693 / 3081]} \<and>
     examples_of trl \<inter> examples_of tel \<noteq> {} \<and>
     examples_of tel \<inter> set (map fst (MNIST mnist_sample False)) = {}"
proof -
  have "get_private_data_loaders (\<lambda>precision x. x) mnist_sample 3 =
          Inr ([([[- (1307 / 3081), 8693 / 3081]], [[0, 0, 0, 1, 0, 0, 0, 0, 0, 0]])],
               [([[- (1307 / 3081), 8693 / 3081]], [3])])"
    by (simp add: get_private_data_loaders_def DataLoader_def MNIST_def mnist_sample_def
                  args_def batches_of.simps first_batches_def n_train_items_def
                  n_test_items_def one_hot_of_def share_test_def secret_share_def
                  transformation_def enumerate_eq_zip eval_nat_numeral)
  moreover have "[- (1307 / 3081), 8693 / 3081] \<notin> set (map fst (MNIST mnist_sample False))"
    by (simp add: MNIST_def mnist_sample_def transformation_def)
  ultimately show ?thesis
    by (simp add: examples_of_def)
qed

text \<open>
  Beyond the claims: whatever the dataset, when \<open>get_private_data_loaders\<close> returns, the
  data of the private test loader is, batch for batch, the data of the private train
  loader.
\<close>

theorem test_loader_holds_train_data:
  assumes "get_private_data_loaders fix_precision mnist precision = Inr (trl, tel)"
  shows "map fst tel = map fst trl"
proof -
  have same: "test_batch_size args = batch_size args" "n_test_items = n_train_items"
    by (simp_all add: args_def n_test_items_def n_train_items_def)
  from assms obtain loader where
    tr: "share_train (fix_precision precision)
           (first_batches n_train_items (batch_size args) loader) = Inr trl" and
    te: "tel = share_test (fix_precision precision)
           (first_batches n_train_items (batch_size args) loader)"
    by (auto simp: get_private_data_loaders_def same split: sum.splits)
  from share_train_data [OF tr] show ?thesis by (simp add: te share_test_data)
qed

theorem test_loader_holds_train_data_witness:
  "get_private_data_loaders (\<lambda>precision x. x) mnist_sample 3 =
     Inr ([([[- (1307 / 3081), 8693 / 3081]], [[0, 0, 0, 1, 0, 0, 0, 0, 0, 0]])],
          [([[- (1307 / 3081), 8693 / 3081]], [3])]) \<and>
   map fst [([[- (1307 / 3081), 8693 / 3081 :: real]], [3 :: real])] =
   map fst [([[- (1307 / 3081), 8693 / 3081 :: real]], [[0, 0, 0, 1, 0, 0, 0, 0, 0, 0 :: real]])]"
proof -
  have run: "get_private_data_loaders (\<lambda>precision x. x) mnist_sample 3 =
     Inr ([([[- (1307 / 3081), 8693 / 3081]], [[0, 0, 0, 1, 0, 0, 0, 0, 0, 0]])],
          [([[- (1307 / 3081), 8693 / 3081]], [3])])"
    by (simp add: get_private_data_loaders_def DataLoader_def MNIST_def mnist_sample_def
                  args_def batches_of.simps first_batches_def n_train_items_def
                  n_test_items_def one_hot_of_def share_test_def secret_share_def
                  transformation_def enumerate_eq_zip eval_nat_numeral)
  from test_loader_holds_train_data [OF run] run show ?thesis by simp
qed

text \<open>
  Claim C10. When \<open>train\<close> returns, the parameters are the result of folding over the
  loader the gradient-descent step that uses the gradient of the current batch alone;
  the gradient stored at the end is that of the last batch alone, whatever gradient was
  stored before \<open>train\<close> was called; and the gradient calls are, per batch, zeroing,
  then backward, then the optimizer step.
\<close>

theorem gradients_of_current_batch_only:
  "case train a net loader epoch s of
     (r, s', evs) \<Rightarrow>
       (log_interval a \<noteq> 0 \<and> well_shaped net loader \<longrightarrow> r = None) \<and>
       (r = None \<longrightarrow>
          params s' = foldl (sgd_update net (opt_lr s)) (params s) loader \<and>
          (loader \<noteq> [] \<longrightarrow>
             grad s' = Some (last_gradient net (opt_lr s) (params s) loader)) \<and>
          filter is_gradient_call evs =
            concat (replicate (length loader) [ZeroGrad, Backward, OptStep]))"
proof -
  obtain r s' evs where run: "train a net loader epoch s = (r, s', evs)"
    by (cases "train a net loader epoch s") auto
  have "r = None" if "log_interval a \<noteq> 0" and "well_shaped net loader"
    using train_total [OF that, of epoch s] run by auto
  moreover have
    "params s' = foldl (sgd_update net (opt_lr s)) (params s) loader \<and>
     (loader \<noteq> [] \<longrightarrow> grad s' = Some (last_gradient net (opt_lr s) (params s) loader)) \<and>
     filter is_gradient_call evs =
       concat (replicate (length loader) [ZeroGrad, Backward, OptStep])" if "r = None"
  proof -
    note ok = run [unfolded that]
    have "filter is_gradient_call evs =
            filter is_gradient_call (filter (\<lambda>e. \<not> is_report e) evs)"
      by (simp only: filter_gradient_calls_reports)
    also have "\<dots> = filter is_gradient_call (concat (map body_events [0..<length loader]))"
      unfolding train_None(4) [OF ok] by (simp add: is_gradient_call_def)
    also have "\<dots> = concat (replicate (length loader) [ZeroGrad, Backward, OptStep])"
      by (simp only: filter_gradient_calls_bodies length_upt diff_zero)
    finally show ?thesis
      using train_None(1) [OF ok] train_None(3) [OF ok] by blast
  qed
  ultimately show ?thesis by (simp add: run)
qed

theorem gradients_of_current_batch_only_witness:
  "log_interval args \<noteq> 0 \<and> well_shaped scale_net sample_train \<and>
   grad sample_state = Some 5 \<and>
   fst (train args scale_net sample_train 1 sample_state) = None \<and>
   params (fst (snd (train args scale_net sample_train 1 sample_state))) = 5 / 2 \<and>
   grad (fst (snd (train args scale_net sample_train 1 sample_state))) = Some (- 11) \<and>
   filter is_gradient_call (snd (snd (train args scale_net sample_train 1 sample_state))) =
     [ZeroGrad, Backward, OptStep, ZeroGrad, Backward, OptStep]"
proof -
  have li: "log_interval args \<noteq> 0" by (simp add: args_def)
  have n: "length sample_train = 2" "sample_train \<noteq> []"
    by (simp_all add: sample_train_def)
  have p: "foldl (sgd_update scale_net (opt_lr sample_state)) (params sample_state) sample_train = 5 / 2"
    by (simp add: sgd_update_def scale_net_def sample_state_def sample_train_def tsum_def)
  have g: "last_gradient scale_net (opt_lr sample_state) (params sample_state) sample_train = - 11"
    by (simp add: last_gradient_def sgd_update_def scale_net_def sample_state_def
                  sample_train_def tsum_def)
  have g0: "grad sample_state = Some 5" by (simp add: sample_state_def)
  have r: "concat (replicate 2 [ZeroGrad, Backward, OptStep]) =
             [ZeroGrad, Backward, OptStep, ZeroGrad, Backward, OptStep]"
    by (simp add: numeral_2_eq_2)
  from gradients_of_current_batch_only [where a = args and net = scale_net
      and loader = sample_train and epoch = 1 and s = sample_state]
    li sample_train_well_shaped n p g g0 r
  show ?thesis by (simp add: case_prod_beta)
qed

end
